theory Spec2Isabelle
  imports Complex_Main "HOL-Library.Sublist"
begin

section \<open>Data model\<close>

text \<open>
  The embedding follows \<^verbatim>\<open>src/algorithms.py\<close> (the batching request loop of
  \<^verbatim>\<open>AdvancedAlgorithmBase.processAlgorithm\<close> with its two endpoint variants) and
  \<^verbatim>\<open>src/travel_time_platform_plugin/algorithms/base.py\<close>
  (\<^verbatim>\<open>AlgorithmBase.processAlgorithmMakeRequest\<close>).

  The host application's objects are taken as the values the code reads from them:
  a feature is the tuple of values its expressions evaluate to together with its point
  (already transformed to EPSG:4326), a feature source is the list of its features in
  iteration order, and \<^verbatim>\<open>tr\<close> is the identity on messages.
\<close>

datatype qvariant = QNull | QInt int | QStr string

record feature =
  f_id :: string
  f_x :: real
  f_y :: real
  f_trnspt_type :: qvariant
  f_trnspt_pt_change_delay :: qvariant
  f_trnspt_walking_time :: qvariant
  f_trnspt_driving_time_to_station :: qvariant
  f_trnspt_parking_time :: qvariant
  f_trnspt_boarding_time :: qvariant
  f_time :: qvariant
  f_travel_time :: qvariant

text \<open>A feature of the locations layer: its id expression, its point, and its attributes.\<close>

record loc_feature =
  lf_id :: string
  lf_x :: real
  lf_y :: real
  lf_attributes :: "qvariant list"

record coords =
  lat :: real
  lng :: real

record transportation =
  t_type :: qvariant
  pt_change_delay :: qvariant
  walking_time :: qvariant
  driving_time_to_station :: qvariant
  parking_time :: qvariant
  boarding_time :: qvariant

text \<open>
  One search dictionary. Keys that the code adds or deletes after construction are optional
  fields: \<open>None\<close> is an absent key.
\<close>

record search =
  s_id :: string
  s_coords :: "coords option"
  s_transportation :: transportation
  s_departure_time :: "qvariant option"
  s_arrival_time :: "qvariant option"
  s_travel_time :: qvariant
  s_properties :: "string list"
  s_departure_location_id :: "string option"
  s_arrival_location_ids :: "string list option"
  s_arrival_location_id :: "string option"
  s_departure_location_ids :: "string list option"

record location =
  l_id :: string
  l_coords :: coords

record aggregation =
  a_id :: string
  a_search_ids :: "string list"

text \<open>The \<^verbatim>\<open>data\<close> dictionary of one request; an absent key is \<open>None\<close>.\<close>

record data =
  departure_searches :: "search list option"
  arrival_searches :: "search list option"
  unions :: "aggregation list option"
  intersections :: "aggregation list option"
  locations :: "location list option"

datatype deparr = DEPARTURE | ARRIVAL

section \<open>Slicing the input into batches\<close>

definition slicing_size :: nat where
  "slicing_size = 10"

text \<open>\<^verbatim>\<open>source.featureCount() if source else 0\<close>\<close>

definition feature_count :: "feature list option \<Rightarrow> nat" where
  "feature_count source = (case source of None \<Rightarrow> 0 | Some fs \<Rightarrow> length fs)"

text \<open>\<^verbatim>\<open>math.ceil(max(source_departure_count, source_arrival_count) / slicing_size)\<close>\<close>

definition slicing_count :: "feature list option \<Rightarrow> feature list option \<Rightarrow> nat" where
  "slicing_count source_departure source_arrival =
     nat \<lceil>real (max (feature_count source_departure) (feature_count source_arrival))
            / real slicing_size\<rceil>"

text \<open>The dictionary appended for one feature (lines 269 to 287).\<close>

definition make_search :: "deparr \<Rightarrow> feature \<Rightarrow> search" where
  "make_search d f =
     \<lparr> s_id = f_id f,
       s_coords = Some \<lparr> lat = f_y f, lng = f_x f \<rparr>,
       s_transportation =
         \<lparr> t_type = f_trnspt_type f,
           pt_change_delay = f_trnspt_pt_change_delay f,
           walking_time = f_trnspt_walking_time f,
           driving_time_to_station = f_trnspt_driving_time_to_station f,
           parking_time = f_trnspt_parking_time f,
           boarding_time = f_trnspt_boarding_time f \<rparr>,
       s_departure_time = (if d = DEPARTURE then Some (f_time f) else None),
       s_arrival_time = (if d = ARRIVAL then Some (f_time f) else None),
       s_travel_time = f_travel_time f,
       s_properties = [],
       s_departure_location_id = None,
       s_arrival_location_ids = None,
       s_arrival_location_id = None,
       s_departure_location_ids = None \<rparr>"

text \<open>
  The inner loop over \<^verbatim>\<open>enumerate(source.getFeatures())\<close>: a feature is skipped when
  \<^verbatim>\<open>i < slicing_start or i >= slicing_end\<close>.
\<close>

definition slice_features :: "nat \<Rightarrow> nat \<Rightarrow> feature list \<Rightarrow> feature list" where
  "slice_features slicing_start slicing_end fs =
     map snd (filter (\<lambda>(i, f). \<not> (i < slicing_start \<or> i \<ge> slicing_end)) (enumerate 0 fs))"

definition load_searches :: "deparr \<Rightarrow> nat \<Rightarrow> feature list option \<Rightarrow> search list option" where
  "load_searches d slicing_i source =
     (case source of
        None \<Rightarrow> None
      | Some fs \<Rightarrow>
          Some (map (make_search d)
                 (slice_features (slicing_i * slicing_size) ((slicing_i + 1) * slicing_size) fs)))"

definition prepare_data :: "feature list option \<Rightarrow> feature list option \<Rightarrow> nat \<Rightarrow> data" where
  "prepare_data source_departure source_arrival slicing_i =
     \<lparr> departure_searches = load_searches DEPARTURE slicing_i source_departure,
       arrival_searches = load_searches ARRIVAL slicing_i source_arrival,
       unions = None,
       intersections = None,
       locations = None \<rparr>"

text \<open>The slices visited by \<^verbatim>\<open>for slicing_i in range(slicing_count)\<close>, in order.\<close>

definition slices :: "feature list option \<Rightarrow> feature list option \<Rightarrow> nat list" where
  "slices source_departure source_arrival = [0 ..< slicing_count source_departure source_arrival]"

section \<open>Messages, persisted settings and the outside world\<close>

datatype error =
    QgsProcessingException string
  | KeyError string
  | AssertionError
  | RequestException string

text \<open>What \<^verbatim>\<open>feedback\<close> receives; the flag of \<open>ReportError\<close> is \<^verbatim>\<open>fatalError\<close>.\<close>

datatype message = DebugInfo string | Info string | ReportError string bool

datatype logged_exception = HTTPError nat | ValueError | ConnectionProblem string

text \<open>
  One call of the message log. A header or parameter dictionary handed to
  \<^verbatim>\<open>"headers: {}".format(...)\<close> is kept as the dictionary that is printed.
\<close>

datatype log_entry =
    Line string
  | Headers "(string \<times> string) list"
  | Params "(string \<times> string) list"
  | Exception logged_exception

text \<open>The persisted settings; \<open>None\<close> is a key that was never written.\<close>

record settings =
  warning_enabled :: "bool option"
  current_count :: "int option"
  warning_limit :: "int option"
  log_calls :: "bool option"
  custom_endpoint :: "string option"
  disable_https :: "bool option"

record request =
  rq_method :: string
  rq_url :: string
  rq_headers :: "(string \<times> string) list"
  rq_data :: string
  rq_params :: "(string \<times> string) list"
  rq_verify :: bool

record response =
  from_cache :: bool
  status_code :: nat
  reason :: string
  response_text :: string

datatype outcome = Raises string | Responds response

record loc_result =
  lr_id :: string
  lr_properties :: string

text \<open>One entry of \<^verbatim>\<open>response_data['results']\<close>; an absent key is \<open>None\<close>.\<close>

record api_result =
  r_search_id :: string
  r_shape :: "string option"
  r_properties :: "string option"
  r_locations :: "loc_result list option"
  r_unreachable :: "string list option"

text \<open>
  The decoded response body. The values of the error fields are held as the text
  that \<^verbatim>\<open>'{}'.format(v)\<close> prints for them (a string prints as itself).
\<close>

record body =
  b_results :: "api_result list option"
  b_error_code :: "string option"
  b_description :: "string option"
  b_documentation_link :: "string option"
  b_additional_info :: "(string \<times> string) list option"

text \<open>
  Everything outside the code: the stored credentials, what the operator does to the
  settings during the n-th sleep, what the cached session answers to the n-th request,
  the JSON codec, and the constants of the newer module.
\<close>

record env =
  credentials :: "string option \<times> string option"
  operator :: "nat \<Rightarrow> settings \<Rightarrow> settings"
  send :: "nat \<Rightarrow> request \<Rightarrow> outcome"
  json_loads :: "string \<Rightarrow> body option"
  json_dumps :: "data \<Rightarrow> string"
  default_endpoint :: string
  user_agent :: string

record state =
  settings :: settings
  sleeps :: nat
  feedback :: "message list"
  message_log :: "log_entry list"
  requests :: "request list"

definition pushDebugInfo :: "string \<Rightarrow> state \<Rightarrow> state" where
  "pushDebugInfo m st = st\<lparr>feedback := feedback st @ [DebugInfo m]\<rparr>"

definition pushInfo :: "string \<Rightarrow> state \<Rightarrow> state" where
  "pushInfo m st = st\<lparr>feedback := feedback st @ [Info m]\<rparr>"

definition reportError :: "string \<Rightarrow> bool \<Rightarrow> state \<Rightarrow> state" where
  "reportError m fatalError st = st\<lparr>feedback := feedback st @ [ReportError m fatalError]\<rparr>"

definition logMessage :: "log_entry \<Rightarrow> state \<Rightarrow> state" where
  "logMessage e st = st\<lparr>message_log := message_log st @ [e]\<rparr>"

text \<open>Python truthiness of a credential: neither \<^verbatim>\<open>None\<close> nor the empty string.\<close>

definition truthy :: "string option \<Rightarrow> bool" where
  "truthy c = (case c of None \<Rightarrow> False | Some s \<Rightarrow> s \<noteq> [])"

definition get_enabled :: "settings \<Rightarrow> bool" where
  "get_enabled s = (case warning_enabled s of None \<Rightarrow> True | Some b \<Rightarrow> b)"

definition get_count :: "settings \<Rightarrow> int" where
  "get_count s = (case current_count s of None \<Rightarrow> 0 | Some c \<Rightarrow> c)"

definition get_limit :: "settings \<Rightarrow> int" where
  "get_limit s = (case warning_limit s of None \<Rightarrow> 10 | Some l \<Rightarrow> l)"

definition get_log_calls :: "settings \<Rightarrow> bool" where
  "get_log_calls s = (case log_calls s of None \<Rightarrow> False | Some b \<Rightarrow> b)"

definition get_disable_https :: "settings \<Rightarrow> bool" where
  "get_disable_https s = (case disable_https s of None \<Rightarrow> False | Some b \<Rightarrow> b)"

text \<open>\<^verbatim>\<open>s.setValue('.../current_count', int(s.value('.../current_count', 0)) + 1)\<close>\<close>

definition increment_count :: "state \<Rightarrow> state" where
  "increment_count st =
     st\<lparr>settings := (settings st)\<lparr>current_count := Some (get_count (settings st) + 1)\<rparr>\<rparr>"

text \<open>\<^verbatim>\<open>time.sleep(10)\<close>: the only point at which the operator can change the settings.\<close>

definition sleep :: "env \<Rightarrow> state \<Rightarrow> state" where
  "sleep e st = st\<lparr>sleeps := Suc (sleeps st), settings := operator e (sleeps st) (settings st)\<rparr>"

subsection \<open>Formatting\<close>

function string_of_nat :: "nat \<Rightarrow> string" where
  "string_of_nat n =
     (if n < 10 then [''0123456789'' ! n]
      else string_of_nat (n div 10) @ [''0123456789'' ! (n mod 10)])"
  by pat_completeness auto
termination
  by (relation "measure (\<lambda>n. n)") auto

declare string_of_nat.simps [simp del]

definition string_of_int :: "int \<Rightarrow> string" where
  "string_of_int i = (if i < 0 then ''-'' @ string_of_nat (nat (- i)) else string_of_nat (nat i))"

text \<open>\<^verbatim>\<open>sep.join(xs)\<close>\<close>

fun join :: "string \<Rightarrow> string list \<Rightarrow> string" where
  "join sep [] = []"
| "join sep [x] = x"
| "join sep (x # y # ys) = x @ sep @ join sep (y # ys)"

text \<open>\<^verbatim>\<open>'\n'.join('\t{}:\t{}'.format(k,v) for k,v in response_data['additional_info'].items())\<close>\<close>

definition nice_info :: "(string \<times> string) list \<Rightarrow> string" where
  "nice_info additional_info =
     join ''\<newline>'' (map (\<lambda>(k, v). [CHR 0x09] @ k @ '':'' @ [CHR 0x09] @ v) additional_info)"

text \<open>\<^verbatim>\<open>response.raise_for_status()\<close> raises for the 4xx and 5xx codes.\<close>

definition raises_for_status :: "response \<Rightarrow> bool" where
  "raises_for_status r \<longleftrightarrow> 400 \<le> status_code r \<and> status_code r < 600"

section \<open>The usage-limit check (lines 302 to 323 of algorithms.py)\<close>

text \<open>
  \<^verbatim>\<open>for i in range(retries): ... else: ...\<close> with \<open>n\<close> iterations still to run, so
  that \<^verbatim>\<open>i = retries - n\<close>. The settings are read again in every iteration.
\<close>

fun check_api_limit :: "env \<Rightarrow> nat \<Rightarrow> nat \<Rightarrow> state \<Rightarrow> (error + unit) \<times> state" where
  "check_api_limit e retries 0 st =
     (Inl (QgsProcessingException ''API usage limit warning''),
      reportError ''Execution canceled because of API limit warning.'' True st)"
| "check_api_limit e retries (Suc n) st =
     (let i = retries - Suc n;
          enabled = get_enabled (settings st);
          count = get_count (settings st) + 1;
          limit = get_limit (settings st) + 1
      in if enabled \<and> count \<ge> limit then
           check_api_limit e retries n
             (sleep e
               (reportError
                  (''Execution will resume in 10 seconds (retry '' @ string_of_nat (i + 1)
                     @ '' out of '' @ string_of_nat retries @ '')'') False
                  (if i = 0 then
                     reportError ''To continue, disable or increase the limit in the plugin settings, or reset the queries counter. Now is your chance to do the changes.'' False
                       (reportError ''WARNING : API usage warning limit reached !'' False st)
                   else st)))
         else
           (Inr (),
            if enabled then
              pushInfo (''API usage warning limit not reached yet (''
                          @ string_of_int (limit - count) @ '' queries remaining)...'') st
            else pushInfo ''API usage warning limit disabled...'' st))"

section \<open>Requests and error reports\<close>

text \<open>
  The message of the \<^verbatim>\<open>HTTPError\<close> handler. The handler reads
  \<^verbatim>\<open>additional_info\<close> first and the three other keys in the order of the format
  arguments; a missing key is a \<^verbatim>\<open>KeyError\<close> raised inside the handler.
\<close>

definition api_error_message :: "string \<Rightarrow> body \<Rightarrow> error + string" where
  "api_error_message intro b =
     (case b_additional_info b of
        None \<Rightarrow> Inl (KeyError ''additional_info'')
      | Some info \<Rightarrow>
     (case b_error_code b of
        None \<Rightarrow> Inl (KeyError ''error_code'')
      | Some code \<Rightarrow>
     (case b_description b of
        None \<Rightarrow> Inl (KeyError ''description'')
      | Some descr \<Rightarrow>
     (case b_documentation_link b of
        None \<Rightarrow> Inl (KeyError ''documentation_link'')
      | Some link \<Rightarrow>
          Inr (intro @ ''\<newline>Error code : '' @ code @ ''\<newline>Description : '' @ descr
                 @ ''\<newline>See : '' @ link @ ''\<newline>Addtionnal info :\<newline>''
                 @ nice_info info)))))"

text \<open>The four lines logged after a response when call logging is on.\<close>

definition log_response :: "response \<Rightarrow> state \<Rightarrow> state" where
  "log_response r st =
     logMessage (Line (''text: '' @ response_text r))
       (logMessage (Line (''reason: '' @ reason r))
         (logMessage (Line (''status: '' @ string_of_nat (status_code r)))
           (logMessage (Line ''Got response'') st)))"

text \<open>
  The \<^verbatim>\<open>try\<close> block of algorithms.py (lines 333 to 366) for one request. The
  counter is written as soon as a response that is not from the cache has arrived, before
  the body is decoded and before the status is checked.
\<close>

definition make_request :: "env \<Rightarrow> request \<Rightarrow> bool \<Rightarrow> state \<Rightarrow> (error + api_result list) \<times> state" where
  "make_request e rq print_query st =
     (let st0 = st\<lparr>requests := requests st @ [rq]\<rparr> in
      case send e (length (requests st)) rq of
        Raises x \<Rightarrow>
          (Inl (QgsProcessingException ''Could not connect to API''),
           logMessage (Exception (ConnectionProblem x))
             (reportError ''Could not connect to the API. See log for more details.'' True st0))
      | Responds r \<Rightarrow>
          (let st1 = (if from_cache r then pushDebugInfo ''Got response from cache...'' st0
                      else increment_count
                             (pushDebugInfo ''Got response from API endpoint...'' st0));
               st2 = (if print_query then log_response r st1 else st1)
           in case json_loads e (response_text r) of
                None \<Rightarrow>
                  (Inl (QgsProcessingException ''Could not decode response''),
                   logMessage (Exception ValueError)
                     (reportError ''Could not decode response. See log for more details.'' True st2))
              | Some b \<Rightarrow>
                  if raises_for_status r then
                    (case api_error_message ''Recieved error from the API.'' b of
                       Inl k \<Rightarrow> (Inl k, st2)
                     | Inr m \<Rightarrow>
                         (Inl (QgsProcessingException
                                 (''Got error '' @ string_of_nat (status_code r) @ '' form API'')),
                          logMessage (Exception (HTTPError (status_code r)))
                            (reportError ''See log for more details.'' True
                              (reportError m True st2))))
                  else
                    (case b_results b of
                       None \<Rightarrow> (Inl (KeyError ''results''), st2)
                     | Some rs \<Rightarrow> (Inr rs, st2))))"

section \<open>Payload remixing\<close>

datatype algorithm =
    TimeMapAlgorithm (compute_union: bool) (compute_inter: bool)
  | TimeFilterAlgorithm (locations_source: "loc_feature list")

fun url :: "algorithm \<Rightarrow> string" where
  "url (TimeMapAlgorithm _ _) = ''https://api.traveltimeapp.com/v4/time-map''"
| "url (TimeFilterAlgorithm _) = ''https://api.traveltimeapp.com/v4/time-filter''"

fun accept_header :: "algorithm \<Rightarrow> string" where
  "accept_header (TimeMapAlgorithm _ _) = ''application/vnd.wkt+json''"
| "accept_header (TimeFilterAlgorithm _) = ''application/json''"

text \<open>The ids collected by the loop over \<^verbatim>\<open>['departure','arrival']\<close> (lines 437 to 441).\<close>

definition collect_search_ids :: "data \<Rightarrow> string list" where
  "collect_search_ids d =
     concat (map (\<lambda>searches. case searches d of None \<Rightarrow> [] | Some ss \<Rightarrow> map s_id ss)
                 [departure_searches, arrival_searches])"

definition TimeMap_processAlgorithmRemixData :: "bool \<Rightarrow> bool \<Rightarrow> data \<Rightarrow> data" where
  "TimeMap_processAlgorithmRemixData cu ci d =
     (if cu \<or> ci then
        (let search_ids = collect_search_ids d;
             d1 = (if cu then d\<lparr>unions := Some [\<lparr>a_id = ''union_all'', a_search_ids = search_ids\<rparr>]\<rparr>
                   else d);
             d2 = (if ci then
                     d1\<lparr>intersections :=
                          Some [\<lparr>a_id = ''intersection_all'', a_search_ids = search_ids\<rparr>]\<rparr>
                   else d1)
         in d2)
      else d)"

definition location_of_feature :: "loc_feature \<Rightarrow> location" where
  "location_of_feature f = \<lparr> l_id = lf_id f, l_coords = \<lparr> lat = lf_y f, lng = lf_x f \<rparr> \<rparr>"

text \<open>
  One of the two loops over the searches of a side (lines 562 to 569 and 571 to 578): the
  search's point is appended to the locations, its \<^verbatim>\<open>coords\<close> key is deleted, and the
  two id keys of its side are set. Reading \<^verbatim>\<open>coords\<close> from a search that has none is a
  \<^verbatim>\<open>KeyError\<close>.
\<close>

fun remix_searches ::
  "deparr \<Rightarrow> string list \<Rightarrow> search list \<Rightarrow> location list \<Rightarrow> error + (search list \<times> location list)"
where
  "remix_searches d all_locations_ids [] locs = Inr ([], locs)"
| "remix_searches d all_locations_ids (s # ss) locs =
     (case s_coords s of
        None \<Rightarrow> Inl (KeyError ''coords'')
      | Some c \<Rightarrow>
          (let locs1 = locs @ [\<lparr> l_id = s_id s, l_coords = c \<rparr>];
               s1 = (case d of
                       DEPARTURE \<Rightarrow>
                         s\<lparr> s_coords := None,
                            s_departure_location_id := Some (s_id s),
                            s_arrival_location_ids := Some all_locations_ids \<rparr>
                     | ARRIVAL \<Rightarrow>
                         s\<lparr> s_coords := None,
                            s_arrival_location_id := Some (s_id s),
                            s_departure_location_ids := Some all_locations_ids \<rparr>)
           in case remix_searches d all_locations_ids ss locs1 of
                Inl x \<Rightarrow> Inl x
              | Inr (ss1, locs2) \<Rightarrow> Inr (s1 # ss1, locs2)))"

definition TimeFilter_processAlgorithmRemixData :: "loc_feature list \<Rightarrow> data \<Rightarrow> error + data" where
  "TimeFilter_processAlgorithmRemixData locs d =
     (let locs0 = map location_of_feature locs;
          all_locations_ids = map l_id locs0
      in case (case departure_searches d of
                 None \<Rightarrow> Inr (None, locs0)
               | Some ss \<Rightarrow>
                   (case remix_searches DEPARTURE all_locations_ids ss locs0 of
                      Inl x \<Rightarrow> Inl x
                    | Inr (ss1, locs1) \<Rightarrow> Inr (Some ss1, locs1))) of
           Inl x \<Rightarrow> Inl x
         | Inr (deps, locs1) \<Rightarrow>
             (case (case arrival_searches d of
                      None \<Rightarrow> Inr (None, locs1)
                    | Some ss \<Rightarrow>
                        (case remix_searches ARRIVAL all_locations_ids ss locs1 of
                           Inl x \<Rightarrow> Inl x
                         | Inr (ss1, locs2) \<Rightarrow> Inr (Some ss1, locs2))) of
                Inl x \<Rightarrow> Inl x
              | Inr (arrs, locs2) \<Rightarrow>
                  Inr (d\<lparr> departure_searches := deps,
                          arrival_searches := arrs,
                          locations := Some locs2 \<rparr>)))"

fun processAlgorithmRemixData :: "algorithm \<Rightarrow> data \<Rightarrow> error + data" where
  "processAlgorithmRemixData (TimeMapAlgorithm cu ci) d =
     Inr (TimeMap_processAlgorithmRemixData cu ci d)"
| "processAlgorithmRemixData (TimeFilterAlgorithm locs) d =
     TimeFilter_processAlgorithmRemixData locs d"

section \<open>Correlating results with the input\<close>

record tm_feature =
  tm_id :: string
  tm_properties :: string
  tm_geometry :: string

record tm_sinks =
  sink :: "tm_feature list"
  sink_union :: "tm_feature list"
  sink_inter :: "tm_feature list"

text \<open>
  The body of the loop of \<^verbatim>\<open>TimeMapAlgorithm.processAlgorithmOutput\<close> (lines 458 to
  470). The geometry is kept as the WKT text it is parsed from and the properties as the
  text they are dumped to.
\<close>

definition TimeMap_add_result :: "api_result \<Rightarrow> tm_sinks \<Rightarrow> error + tm_sinks" where
  "TimeMap_add_result result sinks =
     (case r_properties result of
        None \<Rightarrow> Inl (KeyError ''properties'')
      | Some props \<Rightarrow>
     (case r_shape result of
        None \<Rightarrow> Inl (KeyError ''shape'')
      | Some shape \<Rightarrow>
          (let feature = \<lparr> tm_id = r_search_id result, tm_properties = props, tm_geometry = shape \<rparr>
           in if r_search_id result = ''union_all'' then
                Inr (sinks\<lparr>sink_union := sink_union sinks @ [feature]\<rparr>)
              else if r_search_id result = ''intersection_all'' then
                Inr (sinks\<lparr>sink_inter := sink_inter sinks @ [feature]\<rparr>)
              else
                Inr (sinks\<lparr>sink := sink sinks @ [feature]\<rparr>))))"

fun TimeMap_add_results :: "api_result list \<Rightarrow> tm_sinks \<Rightarrow> error + tm_sinks" where
  "TimeMap_add_results [] sinks = Inr sinks"
| "TimeMap_add_results (result # results) sinks =
     (case TimeMap_add_result result sinks of
        Inl x \<Rightarrow> Inl x
      | Inr sinks1 \<Rightarrow> TimeMap_add_results results sinks1)"

definition TimeMap_processAlgorithmOutput :: "api_result list \<Rightarrow> error + tm_sinks" where
  "TimeMap_processAlgorithmOutput results =
     TimeMap_add_results results \<lparr> sink = [], sink_union = [], sink_inter = [] \<rparr>"

record result_feature =
  rf_geometry :: "real \<times> real"
  rf_attributes :: "qvariant list"
  rf_search_id :: string
  rf_properties :: string

record unreachable_feature =
  uf_geometry :: "real \<times> real"
  uf_attributes :: "qvariant list"
  uf_search_id :: string

record tf_sinks =
  results_sink :: "result_feature list"
  unreachable_sink :: "unreachable_feature list"

text \<open>
  \<^verbatim>\<open>get_location_feature\<close>: the first feature of the locations layer whose id
  expression equals the id, or \<^verbatim>\<open>None\<close> when the loop body never runs.
\<close>

definition get_location_feature :: "loc_feature list \<Rightarrow> string \<Rightarrow> loc_feature option" where
  "get_location_feature locs wanted_id = find (\<lambda>f. lf_id f = wanted_id) locs"

fun add_locations ::
  "loc_feature list \<Rightarrow> string \<Rightarrow> loc_result list \<Rightarrow> result_feature list \<Rightarrow> error + result_feature list"
where
  "add_locations locs search_id [] snk = Inr snk"
| "add_locations locs search_id (location # rest) snk =
     (case get_location_feature locs (lr_id location) of
        None \<Rightarrow> Inl AssertionError
      | Some base_ft \<Rightarrow>
          add_locations locs search_id rest
            (snk @ [\<lparr> rf_geometry = (lf_x base_ft, lf_y base_ft),
                      rf_attributes = lf_attributes base_ft,
                      rf_search_id = search_id,
                      rf_properties = lr_properties location \<rparr>]))"

fun add_unreachable ::
  "loc_feature list \<Rightarrow> string \<Rightarrow> string list \<Rightarrow> unreachable_feature list \<Rightarrow> error + unreachable_feature list"
where
  "add_unreachable locs search_id [] snk = Inr snk"
| "add_unreachable locs search_id (wanted_id # rest) snk =
     (case get_location_feature locs wanted_id of
        None \<Rightarrow> Inl AssertionError
      | Some base_ft \<Rightarrow>
          add_unreachable locs search_id rest
            (snk @ [\<lparr> uf_geometry = (lf_x base_ft, lf_y base_ft),
                      uf_attributes = lf_attributes base_ft,
                      uf_search_id = search_id \<rparr>]))"

fun TimeFilter_add_results :: "loc_feature list \<Rightarrow> api_result list \<Rightarrow> tf_sinks \<Rightarrow> error + tf_sinks" where
  "TimeFilter_add_results locs [] sinks = Inr sinks"
| "TimeFilter_add_results locs (result # results) sinks =
     (case r_locations result of
        None \<Rightarrow> Inl (KeyError ''locations'')
      | Some ls \<Rightarrow>
     (case add_locations locs (r_search_id result) ls (results_sink sinks) of
        Inl x \<Rightarrow> Inl x
      | Inr snk1 \<Rightarrow>
     (case r_unreachable result of
        None \<Rightarrow> Inl (KeyError ''unreachable'')
      | Some us \<Rightarrow>
     (case add_unreachable locs (r_search_id result) us (unreachable_sink sinks) of
        Inl x \<Rightarrow> Inl x
      | Inr snk2 \<Rightarrow>
          TimeFilter_add_results locs results
            \<lparr> results_sink = snk1, unreachable_sink = snk2 \<rparr>))))"

definition TimeFilter_processAlgorithmOutput :: "loc_feature list \<Rightarrow> api_result list \<Rightarrow> error + tf_sinks" where
  "TimeFilter_processAlgorithmOutput locs results =
     TimeFilter_add_results locs results \<lparr> results_sink = [], unreachable_sink = [] \<rparr>"

datatype outputs = TimeMapOutput tm_sinks | TimeFilterOutput tf_sinks

fun processAlgorithmOutput :: "algorithm \<Rightarrow> api_result list \<Rightarrow> state \<Rightarrow> (error + outputs) \<times> state" where
  "processAlgorithmOutput (TimeMapAlgorithm cu ci) results st =
     (case TimeMap_processAlgorithmOutput results of
        Inl x \<Rightarrow> (Inl x, st)
      | Inr sinks \<Rightarrow> (Inr (TimeMapOutput sinks), pushDebugInfo ''TimeMapAlgorithm done !'' st))"
| "processAlgorithmOutput (TimeFilterAlgorithm locs) results st =
     (case TimeFilter_processAlgorithmOutput locs results of
        Inl x \<Rightarrow> (Inl x, st)
      | Inr sinks \<Rightarrow> (Inr (TimeFilterOutput sinks), pushDebugInfo ''TimeFilterAlgorithm done !'' st))"

section \<open>The batched operation (processAlgorithm of algorithms.py)\<close>

definition request_headers :: "algorithm \<Rightarrow> string \<Rightarrow> string \<Rightarrow> (string \<times> string) list" where
  "request_headers alg APP_ID API_KEY =
     [(''Content-type'', ''application/json''),
      (''Accept'', accept_header alg),
      (''X-Application-Id'', APP_ID),
      (''X-Api-Key'', API_KEY)]"

definition log_request :: "string \<Rightarrow> (string \<times> string) list \<Rightarrow> string \<Rightarrow> state \<Rightarrow> state" where
  "log_request u headers payload st =
     logMessage (Line (''data: '' @ payload))
       (logMessage (Headers headers)
         (logMessage (Line (''url: '' @ u))
           (logMessage (Line ''Making request'') st)))"

definition loading_messages :: "feature list option \<Rightarrow> feature list option \<Rightarrow> state \<Rightarrow> state" where
  "loading_messages source_departure source_arrival st =
     (let st1 = (if source_departure \<noteq> None
                 then pushDebugInfo ''Loading departure searches features...'' st else st)
      in if source_arrival \<noteq> None
         then pushDebugInfo ''Loading arrival searches features...'' st1 else st1)"

text \<open>The request that \<^verbatim>\<open>cached_requests.post(url, data=data, headers=headers)\<close> hands on.\<close>

definition post_request :: "algorithm \<Rightarrow> (string \<times> string) list \<Rightarrow> string \<Rightarrow> request" where
  "post_request alg headers payload =
     \<lparr> rq_method = ''POST'', rq_url = url alg, rq_headers = headers,
       rq_data = payload, rq_params = [], rq_verify = True \<rparr>"

text \<open>One pass of the body of the loop over the slices (lines 242 to 366).\<close>

definition request_cycle ::
  "env \<Rightarrow> algorithm \<Rightarrow> string \<Rightarrow> string \<Rightarrow> feature list option \<Rightarrow> feature list option
     \<Rightarrow> nat \<Rightarrow> state \<Rightarrow> (error + api_result list) \<times> state"
where
  "request_cycle e alg APP_ID API_KEY source_departure source_arrival slicing_i st =
     (let st1 = loading_messages source_departure source_arrival st;
          headers = request_headers alg APP_ID API_KEY
      in case processAlgorithmRemixData alg (prepare_data source_departure source_arrival slicing_i) of
           Inl x \<Rightarrow> (Inl x, st1)
         | Inr d \<Rightarrow>
             (let payload = json_dumps e d;
                  st2 = pushDebugInfo ''Checking API limit warnings...'' st1
              in case check_api_limit e 10 10 st2 of
                   (Inl x, st3) \<Rightarrow> (Inl x, st3)
                 | (Inr _, st3) \<Rightarrow>
                     (let st4 = pushDebugInfo ''Making request to API endpoint...'' st3;
                          print_query = get_log_calls (settings st4);
                          st5 = (if print_query then log_request (url alg) headers payload st4
                                 else st4)
                      in make_request e (post_request alg headers payload) print_query st5)))"

text \<open>
  The loop over the slices with its accumulator \<^verbatim>\<open>results\<close>. An exception leaves the
  loop and the function at once; the accumulator is a local variable and is lost.
\<close>

fun run_slices ::
  "env \<Rightarrow> algorithm \<Rightarrow> string \<Rightarrow> string \<Rightarrow> feature list option \<Rightarrow> feature list option
     \<Rightarrow> nat list \<Rightarrow> api_result list \<Rightarrow> state \<Rightarrow> (error + api_result list) \<times> state"
where
  "run_slices e alg APP_ID API_KEY source_departure source_arrival [] results st = (Inr results, st)"
| "run_slices e alg APP_ID API_KEY source_departure source_arrival (slicing_i # rest) results st =
     (case request_cycle e alg APP_ID API_KEY source_departure source_arrival slicing_i st of
        (Inl x, st1) \<Rightarrow> (Inl x, st1)
      | (Inr rs, st1) \<Rightarrow>
          run_slices e alg APP_ID API_KEY source_departure source_arrival rest (results @ rs) st1)"

definition string_of_credential :: "string option \<Rightarrow> string" where
  "string_of_credential c = (case c of None \<Rightarrow> [] | Some s \<Rightarrow> s)"

text \<open>The notice pushed before the loop when more than one query is needed.\<close>

definition announce_slicing :: "nat \<Rightarrow> state \<Rightarrow> state" where
  "announce_slicing n st =
     (if n > 1 then
        pushInfo (''Input layers have more than '' @ string_of_nat slicing_size
          @ '' features. The query will be executed in '' @ string_of_nat n
          @ '' queries. This may have unexpected consequences on some parameters. Keep an eye on your API usage !'') st
      else st)"

definition processAlgorithm ::
  "env \<Rightarrow> algorithm \<Rightarrow> feature list option \<Rightarrow> feature list option \<Rightarrow> state
     \<Rightarrow> (error + outputs) \<times> state"
where
  "processAlgorithm e alg source_departure source_arrival st =
     (let st0 = pushDebugInfo ''Starting TimeMapAlgorithm...'' st;
          APP_ID = fst (credentials e);
          API_KEY = snd (credentials e)
      in if \<not> truthy APP_ID \<or> \<not> truthy API_KEY then
           (Inl (QgsProcessingException ''App ID or api key not set''),
            reportError ''You need a Travel Time Platform API key to make requests. Please head to http://docs.traveltimeplatform.com/overview/getting-keys/ to obtain one, and enter it in the plugin's setting dialog.'' True st0)
         else
           (let st1 = announce_slicing (slicing_count source_departure source_arrival) st0
            in case run_slices e alg (string_of_credential APP_ID) (string_of_credential API_KEY)
                      source_departure source_arrival (slices source_departure source_arrival) [] st1 of
                 (Inl x, st2) \<Rightarrow> (Inl x, st2)
               | (Inr results, st2) \<Rightarrow>
                   processAlgorithmOutput alg results
                     (pushDebugInfo ''Loading response to layer...'' st2)))"

section \<open>The request helper of the newer module (base.py)\<close>

record algorithm_base =
  ab_method :: string
  ab_url :: string
  ab_accept_header :: string

text \<open>
  \<^verbatim>\<open>if headers_for_logs[key]: headers_for_logs[key] = "*hidden*"\<close> on the copy of
  the header dictionary.
\<close>

definition hide_header :: "string \<Rightarrow> (string \<times> string) list \<Rightarrow> (string \<times> string) list" where
  "hide_header key headers_for_logs =
     (case map_of headers_for_logs key of
        None \<Rightarrow> headers_for_logs
      | Some v \<Rightarrow> if v \<noteq> [] then map (\<lambda>(k, w). if k = key then (k, ''*hidden*'') else (k, w)) headers_for_logs
                  else headers_for_logs)"

definition base_headers :: "env \<Rightarrow> algorithm_base \<Rightarrow> (string \<times> string) list" where
  "base_headers e self =
     [(''Content-type'', ''application/json''),
      (''Accept'', ab_accept_header self),
      (''User-Agent'', user_agent e),
      (''X-Application-Id'', string_of_credential (fst (credentials e))),
      (''X-Api-Key'', string_of_credential (snd (credentials e)))]"

definition full_url :: "env \<Rightarrow> algorithm_base \<Rightarrow> settings \<Rightarrow> string" where
  "full_url e self s =
     (case custom_endpoint s of None \<Rightarrow> default_endpoint e | Some u \<Rightarrow> u) @ ab_url self"

text \<open>The arguments of \<^verbatim>\<open>cache.instance.cached_requests.request(...)\<close>.\<close>

definition base_request ::
  "env \<Rightarrow> algorithm_base \<Rightarrow> string \<Rightarrow> (string \<times> string) list \<Rightarrow> settings \<Rightarrow> request"
where
  "base_request e self json_data params s =
     \<lparr> rq_method = ab_method self, rq_url = full_url e self s, rq_headers = base_headers e self,
       rq_data = json_data, rq_params = params, rq_verify = (\<not> get_disable_https s) \<rparr>"

text \<open>The five lines logged before the request when call logging is on (lines 181 to 192).\<close>

definition base_log_request ::
  "env \<Rightarrow> algorithm_base \<Rightarrow> string \<Rightarrow> (string \<times> string) list \<Rightarrow> state \<Rightarrow> state"
where
  "base_log_request e self json_data params st =
     (let headers_for_logs =
            hide_header ''X-Api-Key'' (hide_header ''X-Application-Id'' (base_headers e self))
      in logMessage (Line (''data: '' @ json_data))
           (logMessage (Params params)
             (logMessage (Headers headers_for_logs)
               (logMessage (Line (''url: '' @ full_url e self (settings st)))
                 (logMessage (Line ''Making request'') st)))))"

definition processAlgorithmMakeRequest ::
  "env \<Rightarrow> algorithm_base \<Rightarrow> string \<Rightarrow> (string \<times> string) list \<Rightarrow> state \<Rightarrow> (error + body) \<times> state"
where
  "processAlgorithmMakeRequest e self json_data params st =
     (let APP_ID = fst (credentials e);
          API_KEY = snd (credentials e)
      in if \<not> truthy APP_ID \<or> \<not> truthy API_KEY then
           (Inl (QgsProcessingException ''App ID or api key not set''),
            reportError ''You need a TravelTime platform API key to make requests. Please head to http://docs.traveltimeplatform.com/overview/getting-keys/ to obtain one, and enter it in the plugin's setting dialog.'' True st)
         else
           (let st1 = pushDebugInfo ''Making request to API endpoint...'' st;
                print_query = get_log_calls (settings st1);
                st2 = (if print_query then base_log_request e self json_data params st1 else st1);
                st3 = (if get_disable_https (settings st2) then
                         pushInfo ''Warning ! HTTPS certificate verification is disabled. This means all data sent to the API can potentially be intercepted by an attacker.'' st2
                       else st2);
                rq = base_request e self json_data params (settings st3);
                st4 = st3\<lparr>requests := requests st3 @ [rq]\<rparr>
            in case send e (length (requests st3)) rq of
                 Raises x \<Rightarrow> (Inl (RequestException x), st4)
               | Responds r \<Rightarrow>
                   (case json_loads e (response_text r) of
                      None \<Rightarrow>
                        (Inl (QgsProcessingException ''Could not decode response''),
                         logMessage (Exception ValueError)
                           (reportError ''Could not decode response. See log for more details.'' True st4))
                    | Some b \<Rightarrow>
                        if raises_for_status r then
                          (case api_error_message ''Received error from the API.'' b of
                             Inl k \<Rightarrow> (Inl k, st4)
                           | Inr m \<Rightarrow>
                               (Inl (QgsProcessingException
                                       (''Got error '' @ string_of_nat (status_code r) @ '' from API'')),
                                logMessage (Exception (HTTPError (status_code r)))
                                  (reportError ''See log for more details.'' True
                                    (reportError m True st4))))
                        else
                          (let st5 = (if from_cache r then
                                        pushDebugInfo ''Got response from cache...'' st4
                                      else increment_count
                                             (pushDebugInfo ''Got response from API endpoint...'' st4));
                               st6 = (if print_query then log_response r st5 else st5)
                           in (Inr b, st6)))))"

section \<open>Notions used to state the properties\<close>

definition searches_of :: "search list option \<Rightarrow> search list" where
  "searches_of side = (case side of None \<Rightarrow> [] | Some ss \<Rightarrow> ss)"

definition features_of :: "feature list option \<Rightarrow> feature list" where
  "features_of source = (case source of None \<Rightarrow> [] | Some fs \<Rightarrow> fs)"

definition locations_of :: "location list option \<Rightarrow> location list" where
  "locations_of ls = (case ls of None \<Rightarrow> [] | Some xs \<Rightarrow> xs)"

text \<open>The check of one iteration of the usage-limit loop on the settings it reads.\<close>

definition over_limit :: "settings \<Rightarrow> bool" where
  "over_limit s \<longleftrightarrow> get_enabled s \<and> get_count s + 1 \<ge> get_limit s + 1"

text \<open>The settings found at the k-th re-check, after k sleeps that began at sleep number t.\<close>

fun settings_after :: "env \<Rightarrow> nat \<Rightarrow> settings \<Rightarrow> nat \<Rightarrow> settings" where
  "settings_after e t s 0 = s"
| "settings_after e t s (Suc k) = settings_after e (Suc t) (operator e t s) k"

text \<open>The entry of the flat locations list that a search contributes.\<close>

definition location_of_search :: "search \<Rightarrow> location list" where
  "location_of_search s =
     (case s_coords s of None \<Rightarrow> [] | Some c \<Rightarrow> [\<lparr> l_id = s_id s, l_coords = c \<rparr>])"

definition remixed_departure :: "string list \<Rightarrow> search \<Rightarrow> search" where
  "remixed_departure ids s =
     s\<lparr> s_coords := None, s_departure_location_id := Some (s_id s),
        s_arrival_location_ids := Some ids \<rparr>"

definition remixed_arrival :: "string list \<Rightarrow> search \<Rightarrow> search" where
  "remixed_arrival ids s =
     s\<lparr> s_coords := None, s_arrival_location_id := Some (s_id s),
        s_departure_location_ids := Some ids \<rparr>"

text \<open>
  The counterpart id list as the specification words it: the ids of all the other
  entries of the flat locations list of the payload.
\<close>

definition all_other_location_ids :: "data \<Rightarrow> search \<Rightarrow> string list" where
  "all_other_location_ids d s =
     filter (\<lambda>i. i \<noteq> s_id s) (map l_id (locations_of (locations d)))"

definition tm_feature_of :: "api_result \<Rightarrow> tm_feature list" where
  "tm_feature_of r =
     (case (r_properties r, r_shape r) of
        (Some props, Some shape) \<Rightarrow>
          [\<lparr> tm_id = r_search_id r, tm_properties = props, tm_geometry = shape \<rparr>]
      | _ \<Rightarrow> [])"

definition reached_feature :: "loc_feature list \<Rightarrow> string \<Rightarrow> loc_result \<Rightarrow> result_feature option" where
  "reached_feature locs search_id l =
     map_option
       (\<lambda>base_ft. \<lparr> rf_geometry = (lf_x base_ft, lf_y base_ft),
                    rf_attributes = lf_attributes base_ft,
                    rf_search_id = search_id,
                    rf_properties = lr_properties l \<rparr>)
       (get_location_feature locs (lr_id l))"

definition unreached_feature :: "loc_feature list \<Rightarrow> string \<Rightarrow> string \<Rightarrow> unreachable_feature option" where
  "unreached_feature locs search_id wanted_id =
     map_option
       (\<lambda>base_ft. \<lparr> uf_geometry = (lf_x base_ft, lf_y base_ft),
                    uf_attributes = lf_attributes base_ft,
                    uf_search_id = search_id \<rparr>)
       (get_location_feature locs wanted_id)"

text \<open>The ids a result refers to: its per-location entries, then its unreachable ids.\<close>

definition location_entries :: "api_result \<Rightarrow> loc_result list" where
  "location_entries r = (case r_locations r of None \<Rightarrow> [] | Some ls \<Rightarrow> ls)"

definition unreachable_ids :: "api_result \<Rightarrow> string list" where
  "unreachable_ids r = (case r_unreachable r of None \<Rightarrow> [] | Some us \<Rightarrow> us)"

definition referenced_ids :: "api_result \<Rightarrow> string list" where
  "referenced_ids r = map lr_id (location_entries r) @ unreachable_ids r"

text \<open>
  The request that the cycle of slice \<open>i\<close> hands to the session: the remixed payload
  of that slice, dumped, under the headers of the operation.
\<close>

definition batch_requests ::
  "env \<Rightarrow> algorithm \<Rightarrow> string \<Rightarrow> string \<Rightarrow> feature list option \<Rightarrow> feature list option
     \<Rightarrow> nat \<Rightarrow> request list"
where
  "batch_requests e alg APP_ID API_KEY source_departure source_arrival slicing_i =
     (case processAlgorithmRemixData alg (prepare_data source_departure source_arrival slicing_i) of
        Inl x \<Rightarrow> []
      | Inr d \<Rightarrow> [post_request alg (request_headers alg APP_ID API_KEY) (json_dumps e d)])"

section \<open>Sample inputs\<close>

definition sample_feature :: "string \<Rightarrow> feature" where
  "sample_feature i =
     \<lparr> f_id = i, f_x = 0, f_y = 0, f_trnspt_type = QStr ''walking'',
       f_trnspt_pt_change_delay = QInt 0, f_trnspt_walking_time = QInt 900,
       f_trnspt_driving_time_to_station = QInt 1800, f_trnspt_parking_time = QInt 300,
       f_trnspt_boarding_time = QInt 0, f_time = QStr ''2019-01-01T00:00:00Z'',
       f_travel_time = QInt 900 \<rparr>"

definition eleven_features :: "feature list" where
  "eleven_features =
     map sample_feature
       [''a'', ''b'', ''c'', ''d'', ''e'', ''f'', ''g'', ''h'', ''i'', ''j'', ''k'']"

definition sample_location :: "string \<Rightarrow> loc_feature" where
  "sample_location i = \<lparr> lf_id = i, lf_x = 1, lf_y = 2, lf_attributes = [QStr i] \<rparr>"

text \<open>Settings with the usage warning on, the given counter and limit, and call logging as given.\<close>

definition sample_settings :: "int \<Rightarrow> int \<Rightarrow> bool \<Rightarrow> settings" where
  "sample_settings c l lg =
     \<lparr> warning_enabled = Some True, current_count = Some c, warning_limit = Some l,
       log_calls = Some lg, custom_endpoint = None, disable_https = None \<rparr>"

definition sample_state :: "settings \<Rightarrow> state" where
  "sample_state s = \<lparr> settings = s, sleeps = 0, feedback = [], message_log = [], requests = [] \<rparr>"

definition sample_result :: "string \<Rightarrow> api_result" where
  "sample_result i =
     \<lparr> r_search_id = i, r_shape = Some ''POLYGON EMPTY'', r_properties = Some ''{}'',
       r_locations = None, r_unreachable = None \<rparr>"

definition sample_error_body :: body where
  "sample_error_body =
     \<lparr> b_results = None, b_error_code = Some ''X'', b_description = Some ''Y'',
       b_documentation_link = Some ''Z'', b_additional_info = Some [(''k'', ''v'')] \<rparr>"

text \<open>A decoder that knows two bodies: a result list with one result, and an error object.\<close>

definition sample_loads :: "string \<Rightarrow> body option" where
  "sample_loads t =
     (if t = ''results'' then
        Some \<lparr> b_results = Some [sample_result ''a''], b_error_code = None, b_description = None,
               b_documentation_link = None, b_additional_info = None \<rparr>
      else if t = ''error'' then Some sample_error_body
      else None)"

definition sample_env :: "(nat \<Rightarrow> request \<Rightarrow> outcome) \<Rightarrow> env" where
  "sample_env answers =
     \<lparr> credentials = (Some ''app'', Some ''secret''),
       operator = (\<lambda>n s. s),
       send = answers,
       json_loads = sample_loads,
       json_dumps = (\<lambda>d. ''payload''),
       default_endpoint = ''https://api.traveltimeapp.com'',
       user_agent = ''QGIS'' \<rparr>"

definition ok_response :: response where
  "ok_response =
     \<lparr> from_cache = False, status_code = 200, reason = ''OK'', response_text = ''results'' \<rparr>"

definition error_response :: response where
  "error_response =
     \<lparr> from_cache = False, status_code = 400, reason = ''Bad Request'', response_text = ''error'' \<rparr>"

definition garbage_response :: response where
  "garbage_response =
     \<lparr> from_cache = False, status_code = 200, reason = ''OK'', response_text = ''<html>'' \<rparr>"

definition sample_base :: algorithm_base where
  "sample_base = \<lparr> ab_method = ''POST'', ab_url = ''/v4/time-map'', ab_accept_header = ''application/json'' \<rparr>"

text \<open>A serialiser that shows which records a payload holds: the ids of its two sides.\<close>

definition id_dumps :: "data \<Rightarrow> string" where
  "id_dumps d =
     concat (map s_id (searches_of (departure_searches d))) @ ''|''
       @ concat (map s_id (searches_of (arrival_searches d)))"

text \<open>A first slice with two departure searches, and what the time-filter remix makes of it.\<close>

definition two_departures :: data where
  "two_departures = prepare_data (Some [sample_feature ''a'', sample_feature ''b'']) None 0"

definition remixed_a :: search where
  "remixed_a = remixed_departure [''x''] (make_search DEPARTURE (sample_feature ''a''))"

definition remixed_b :: search where
  "remixed_b = remixed_departure [''x''] (make_search DEPARTURE (sample_feature ''b''))"

definition two_departures_remixed :: data where
  "two_departures_remixed =
     \<lparr> departure_searches = Some [remixed_a, remixed_b],
       arrival_searches = None,
       unions = None,
       intersections = None,
       locations = Some [\<lparr> l_id = ''x'', l_coords = \<lparr> lat = 2, lng = 1 \<rparr> \<rparr>,
                         \<lparr> l_id = ''a'', l_coords = \<lparr> lat = 0, lng = 0 \<rparr> \<rparr>,
                         \<lparr> l_id = ''b'', l_coords = \<lparr> lat = 0, lng = 0 \<rparr> \<rparr>] \<rparr>"

text \<open>A time-filter result of search \<open>a\<close>: location \<open>x\<close> reached, location \<open>y\<close> not.\<close>

definition sample_filter_result :: api_result where
  "sample_filter_result =
     \<lparr> r_search_id = ''a'', r_shape = None, r_properties = None,
       r_locations = Some [\<lparr> lr_id = ''x'', lr_properties = ''{}'' \<rparr>],
       r_unreachable = Some [''y''] \<rparr>"

section \<open>Batching: every record in exactly one batch, in order\<close>

lemma slicing_count_div:
  "slicing_count d a = (max (feature_count d) (feature_count a) + 9) div 10"
  unfolding slicing_count_def slicing_size_def by linarith

lemma filter_enumerate_window:
  "map snd (filter (\<lambda>(i, f). \<not> (i < a \<or> i \<ge> b)) (enumerate n fs))
     = take (b - max a n) (drop (a - n) fs)"
proof (induction fs arbitrary: n)
  case Nil
  show ?case by simp
next
  case (Cons x xs)
  consider "n < a" | "a \<le> n" "n < b" | "a \<le> n" "b \<le> n" by linarith
  then show ?case
  proof cases
    case 1
    then have "max a (Suc n) = a" "max a n = a" by simp_all
    moreover from 1 have "a - n = Suc (a - Suc n)" by simp
    ultimately show ?thesis using 1 Cons.IH [of "Suc n"] by simp
  next
    case 2
    then have "max a (Suc n) = Suc n" "max a n = n" "a - n = 0" "a - Suc n = 0" by simp_all
    moreover from 2 have "b - n = Suc (b - Suc n)" by simp
    ultimately show ?thesis using 2 Cons.IH [of "Suc n"] by simp
  next
    case 3
    then have "b - max a n = 0" "b - max a (Suc n) = 0" by simp_all
    then show ?thesis using 3 Cons.IH [of "Suc n"] by simp
  qed
qed

lemma slice_features_take_drop:
  "slice_features (i * slicing_size) ((i + 1) * slicing_size) fs
     = take slicing_size (drop (i * slicing_size) fs)"
  unfolding slice_features_def filter_enumerate_window by simp

lemma concat_take_drop:
  "0 < k \<Longrightarrow> length xs \<le> n * k \<Longrightarrow> concat (map (\<lambda>i. take k (drop (i * k) xs)) [0 ..< n]) = xs"
proof (induction n arbitrary: xs)
  case 0
  then show ?case by simp
next
  case (Suc n)
  have "concat (map (\<lambda>i. take k (drop (i * k) xs)) [0 ..< Suc n])
        = take k xs @ concat (map (\<lambda>i. take k (drop (Suc i * k) xs)) [0 ..< n])"
    by (simp add: upt_conv_Cons map_Suc_upt [symmetric] comp_def del: upt_Suc)
  also have "(\<lambda>i. take k (drop (Suc i * k) xs)) = (\<lambda>i. take k (drop (i * k) (drop k xs)))"
    by (simp add: add.commute)
  also have "concat (map (\<lambda>i. take k (drop (i * k) (drop k xs))) [0 ..< n]) = drop k xs"
    using Suc.prems by (intro Suc.IH) simp_all
  finally show ?case by simp
qed


lemma slices_length: "length (slices d a) = slicing_count d a"
  by (simp add: slices_def)

lemma load_searches_take_drop:
  "load_searches d i source
     = map_option (\<lambda>fs. map (make_search d) (take slicing_size (drop (i * slicing_size) fs))) source"
  unfolding load_searches_def
  by (cases source) (simp_all only: slice_features_take_drop option.case option.map)

lemma concat_load_searches:
  assumes "feature_count source \<le> n * slicing_size"
  shows "concat (map (\<lambda>i. searches_of (load_searches d i source)) [0 ..< n])
           = map (make_search d) (features_of source)"
proof (cases source)
  case None
  then show ?thesis
    by (simp add: load_searches_def searches_of_def features_of_def)
next
  case (Some fs)
  have len: "length fs \<le> n * slicing_size"
    using assms Some by (simp add: feature_count_def)
  have "concat (map (\<lambda>i. searches_of (load_searches d i source)) [0 ..< n])
          = concat (map (\<lambda>i. map (make_search d) (take slicing_size (drop (i * slicing_size) fs))) [0 ..< n])"
    by (simp add: Some load_searches_take_drop searches_of_def)
  also have "\<dots> = map (make_search d)
                      (concat (map (\<lambda>i. take slicing_size (drop (i * slicing_size) fs)) [0 ..< n]))"
    by (simp add: map_concat comp_def)
  also have "\<dots> = map (make_search d) fs"
    using concat_take_drop [of slicing_size fs n] len by (simp add: slicing_size_def)
  finally show ?thesis
    by (simp add: Some features_of_def)
qed

lemma slicing_count_covers:
  "feature_count d \<le> slicing_count d a * slicing_size"
  "feature_count a \<le> slicing_count d a * slicing_size"
  unfolding slicing_count_div slicing_size_def by linarith+

lemma check_api_limit_requests:
  "requests (snd (check_api_limit e r n st)) = requests st"
  by (induction n arbitrary: st)
     (simp_all add: Let_def sleep_def reportError_def pushInfo_def)

lemma log_response_requests: "requests (log_response r st) = requests st"
  by (simp add: log_response_def logMessage_def)

lemma log_request_requests: "requests (log_request u h p st) = requests st"
  by (simp add: log_request_def logMessage_def)

lemma loading_messages_requests: "requests (loading_messages d a st) = requests st"
  by (simp add: loading_messages_def pushDebugInfo_def Let_def)

lemma make_request_requests:
  "requests (snd (make_request e rq p st)) = requests st @ [rq]"
  unfolding make_request_def
  by (simp add: Let_def log_response_requests logMessage_def reportError_def pushDebugInfo_def
        increment_count_def
      split: outcome.split option.split sum.split)

lemma check_api_limit_requests_eq:
  "check_api_limit e r n st = (x, st') \<Longrightarrow> requests st' = requests st"
  using check_api_limit_requests [of e r n st] by simp

lemma request_cycle_requests_le:
  "length (requests (snd (request_cycle e alg i k d a j st))) \<le> Suc (length (requests st))"
  unfolding request_cycle_def
  by (auto simp: Let_def make_request_requests log_request_requests loading_messages_requests
        pushDebugInfo_def
      split: sum.split prod.split dest!: check_api_limit_requests_eq)

lemma make_request_success:
  assumes "make_request e rq p st = (Inr rs, st')"
  shows "\<exists>r b. send e (length (requests st)) rq = Responds r
               \<and> json_loads e (response_text r) = Some b
               \<and> \<not> raises_for_status r
               \<and> b_results b = Some rs"
  using assms unfolding make_request_def
  by (auto simp: Let_def split: outcome.splits option.splits sum.splits if_splits)

lemma make_request_requests_eq:
  "make_request e rq p st = (x, st') \<Longrightarrow> requests st' = requests st @ [rq]"
  using make_request_requests [of e rq p st] by simp

lemma request_cycle_requests_success:
  assumes "request_cycle e alg i k d a j st = (Inr rs, st')"
  shows "length (requests st') = Suc (length (requests st))"
  using assms unfolding request_cycle_def
  by (auto simp: Let_def log_request_requests loading_messages_requests pushDebugInfo_def
      split: sum.splits prod.splits if_splits
      dest!: check_api_limit_requests_eq make_request_requests_eq)

lemma run_slices_requests_success:
  "run_slices e alg i k d a js results st = (Inr rs, st')
     \<Longrightarrow> length (requests st') = length (requests st) + length js"
proof (induction js arbitrary: results st)
  case Nil
  then show ?case by simp
next
  case (Cons j js)
  from Cons.prems obtain r1 st1 where
    c: "request_cycle e alg i k d a j st = (Inr r1, st1)"
    and r: "run_slices e alg i k d a js (results @ r1) st1 = (Inr rs, st')"
    by (auto split: prod.splits sum.splits)
  from Cons.IH [OF r] request_cycle_requests_success [OF c] show ?case by simp
qed

lemma run_slices_requests_le:
  "length (requests (snd (run_slices e alg i k d a js results st))) \<le> length (requests st) + length js"
proof (induction js arbitrary: results st)
  case Nil
  then show ?case by simp
next
  case (Cons j js)
  show ?case
  proof (cases "request_cycle e alg i k d a j st")
    case (Pair c st1)
    have le1: "length (requests st1) \<le> Suc (length (requests st))"
      using request_cycle_requests_le [of e alg i k d a j st] Pair by simp
    show ?thesis
    proof (cases c)
      case (Inl x)
      then show ?thesis using Pair le1 by simp
    next
      case (Inr r1)
      then show ?thesis
        using Pair le1 Cons.IH [of "results @ r1" st1] by simp
    qed
  qed
qed


lemma processAlgorithmOutput_requests:
  "requests (snd (processAlgorithmOutput alg results st)) = requests st"
  by (cases alg) (simp_all add: pushDebugInfo_def split: sum.split)

lemma announce_slicing_requests: "requests (announce_slicing n st) = requests st"
  by (simp add: announce_slicing_def pushInfo_def)

lemma processAlgorithm_requests_le:
  "length (requests (snd (processAlgorithm e alg d a st))) \<le> length (requests st) + slicing_count d a"
proof (cases "\<not> truthy (fst (credentials e)) \<or> \<not> truthy (snd (credentials e))")
  case True
  then show ?thesis
    unfolding processAlgorithm_def by (auto simp: Let_def reportError_def pushDebugInfo_def)
next
  case False
  define st1 where
    "st1 = announce_slicing (slicing_count d a) (pushDebugInfo ''Starting TimeMapAlgorithm...'' st)"
  define run where
    "run = run_slices e alg (string_of_credential (fst (credentials e)))
             (string_of_credential (snd (credentials e))) d a (slices d a) [] st1"
  have st1: "requests st1 = requests st"
    by (simp add: st1_def announce_slicing_requests pushDebugInfo_def)
  have le: "length (requests (snd run)) \<le> length (requests st) + slicing_count d a"
    unfolding run_def
    using run_slices_requests_le [of e alg _ _ d a "slices d a" "[]" st1]
    by (simp add: slices_length st1)
  have "processAlgorithm e alg d a st =
          (case run of
             (Inl x, st2) \<Rightarrow> (Inl x, st2)
           | (Inr results, st2) \<Rightarrow>
               processAlgorithmOutput alg results (pushDebugInfo ''Loading response to layer...'' st2))"
    using False unfolding processAlgorithm_def run_def st1_def by (simp add: Let_def)
  then show ?thesis
    using le
    by (auto simp: processAlgorithmOutput_requests pushDebugInfo_def split: prod.split sum.split)
qed

lemma processAlgorithm_requests_success:
  assumes "processAlgorithm e alg d a st = (Inr out, st')"
  shows "length (requests st') = length (requests st) + slicing_count d a"
proof -
  from assms obtain i k rs st2 where
    r: "run_slices e alg i k d a (slices d a) []
          (announce_slicing (slicing_count d a) (pushDebugInfo ''Starting TimeMapAlgorithm...'' st))
        = (Inr rs, st2)"
    and o: "processAlgorithmOutput alg rs (pushDebugInfo ''Loading response to layer...'' st2) = (Inr out, st')"
    unfolding processAlgorithm_def
    by (auto simp: Let_def split: if_splits prod.splits sum.splits)
  from o have "requests st' = requests st2"
    using processAlgorithmOutput_requests [of alg rs "pushDebugInfo ''Loading response to layer...'' st2"]
    by (simp add: pushDebugInfo_def)
  moreover from run_slices_requests_success [OF r]
  have "length (requests st2) = length (requests st) + slicing_count d a"
    by (simp add: announce_slicing_requests pushDebugInfo_def slices_length)
  ultimately show ?thesis by simp
qed

section \<open>Payload remixing\<close>

lemma collect_search_ids_eq:
  "collect_search_ids d
     = map s_id (searches_of (departure_searches d)) @ map s_id (searches_of (arrival_searches d))"
  by (simp add: collect_search_ids_def searches_of_def split: option.split)

text \<open>
  Claim C7. When union aggregation is requested, the time-map payload gets exactly one
  union descriptor: its id is \<open>union_all\<close> and its search ids are the ids of all the
  searches of the payload, the departure searches first and then the arrival searches, each
  side in construction order. The same holds for intersection with the id
  \<open>intersection_all\<close>. An aggregation that is not requested leaves its key as it was,
  and the searches themselves are not changed.
\<close>

theorem timemap_aggregation:
  "unions (TimeMap_processAlgorithmRemixData True ci d)
     = Some [\<lparr> a_id = ''union_all'',
               a_search_ids = map s_id (searches_of (departure_searches d))
                                @ map s_id (searches_of (arrival_searches d)) \<rparr>]
   \<and> intersections (TimeMap_processAlgorithmRemixData cu True d)
     = Some [\<lparr> a_id = ''intersection_all'',
               a_search_ids = map s_id (searches_of (departure_searches d))
                                @ map s_id (searches_of (arrival_searches d)) \<rparr>]
   \<and> unions (TimeMap_processAlgorithmRemixData False ci d) = unions d
   \<and> intersections (TimeMap_processAlgorithmRemixData cu False d) = intersections d
   \<and> departure_searches (TimeMap_processAlgorithmRemixData cu ci d) = departure_searches d
   \<and> arrival_searches (TimeMap_processAlgorithmRemixData cu ci d) = arrival_searches d"
  by (simp add: TimeMap_processAlgorithmRemixData_def collect_search_ids_eq Let_def)

text \<open>With the search ids \<open>a\<close> (departure) and \<open>b\<close> (arrival) the descriptor lists \<open>[a, b]\<close>.\<close>

theorem timemap_aggregation_example:
  "unions (TimeMap_processAlgorithmRemixData True False
             (prepare_data (Some [sample_feature ''a'']) (Some [sample_feature ''b'']) 0))
     = Some [\<lparr> a_id = ''union_all'', a_search_ids = [''a'', ''b''] \<rparr>]
   \<and> intersections (TimeMap_processAlgorithmRemixData False True
             (prepare_data (Some [sample_feature ''a'']) (Some [sample_feature ''b'']) 0))
     = Some [\<lparr> a_id = ''intersection_all'', a_search_ids = [''a'', ''b''] \<rparr>]"
proof -
  have "map s_id (searches_of (departure_searches
          (prepare_data (Some [sample_feature ''a'']) (Some [sample_feature ''b'']) 0))) = [''a'']"
    by code_simp
  moreover have "map s_id (searches_of (arrival_searches
          (prepare_data (Some [sample_feature ''a'']) (Some [sample_feature ''b'']) 0))) = [''b'']"
    by code_simp
  ultimately show ?thesis
    using timemap_aggregation [of False "prepare_data (Some [sample_feature ''a'']) (Some [sample_feature ''b'']) 0" False]
    by simp
qed

lemma remix_searches_departure:
  "\<forall>s\<in>set ss. s_coords s \<noteq> None \<Longrightarrow>
   remix_searches DEPARTURE ids ss locs
     = Inr (map (remixed_departure ids) ss, locs @ concat (map location_of_search ss))"
proof (induction ss arbitrary: locs)
  case Nil
  show ?case by simp
next
  case (Cons s ss)
  from Cons.prems obtain c where c: "s_coords s = Some c" by auto
  from Cons.prems have "\<forall>s\<in>set ss. s_coords s \<noteq> None" by simp
  from Cons.IH [OF this] c show ?case
    by (simp add: remixed_departure_def location_of_search_def)
qed

lemma remix_searches_arrival:
  "\<forall>s\<in>set ss. s_coords s \<noteq> None \<Longrightarrow>
   remix_searches ARRIVAL ids ss locs
     = Inr (map (remixed_arrival ids) ss, locs @ concat (map location_of_search ss))"
proof (induction ss arbitrary: locs)
  case Nil
  show ?case by simp
next
  case (Cons s ss)
  from Cons.prems obtain c where c: "s_coords s = Some c" by auto
  from Cons.prems have "\<forall>s\<in>set ss. s_coords s \<noteq> None" by simp
  from Cons.IH [OF this] c show ?case
    by (simp add: remixed_arrival_def location_of_search_def)
qed

lemma remix_searches_missing_coords:
  "s \<in> set ss \<Longrightarrow> s_coords s = None \<Longrightarrow> remix_searches d ids ss locs = Inl (KeyError ''coords'')"
proof (induction ss arbitrary: locs)
  case Nil
  then show ?case by simp
next
  case (Cons t ss)
  then show ?case
    by (cases "s_coords t") (auto simp: Let_def)
qed

lemma location_ids_of_features: "map l_id (map location_of_feature locs) = map lf_id locs"
  by (simp add: location_of_feature_def comp_def)

lemma timefilter_remix_eq:
  assumes "\<forall>s\<in>set (searches_of (departure_searches d)). s_coords s \<noteq> None"
      and "\<forall>s\<in>set (searches_of (arrival_searches d)). s_coords s \<noteq> None"
  shows "TimeFilter_processAlgorithmRemixData locs d
     = Inr (d\<lparr> departure_searches :=
                  map_option (map (remixed_departure (map lf_id locs))) (departure_searches d),
                arrival_searches :=
                  map_option (map (remixed_arrival (map lf_id locs))) (arrival_searches d),
                locations :=
                  Some (map location_of_feature locs
                          @ concat (map location_of_search (searches_of (departure_searches d)))
                          @ concat (map location_of_search (searches_of (arrival_searches d)))) \<rparr>)"
proof -
  have dep: "departure_searches d = Some ss \<Longrightarrow>
          remix_searches DEPARTURE (map lf_id locs) ss locs0
            = Inr (map (remixed_departure (map lf_id locs)) ss, locs0 @ concat (map location_of_search ss))"
    for ss locs0
    using assms(1) by (intro remix_searches_departure) (simp add: searches_of_def)
  have arr: "arrival_searches d = Some ss \<Longrightarrow>
          remix_searches ARRIVAL (map lf_id locs) ss locs0
            = Inr (map (remixed_arrival (map lf_id locs)) ss, locs0 @ concat (map location_of_search ss))"
    for ss locs0
    using assms(2) by (intro remix_searches_arrival) (simp add: searches_of_def)
  show ?thesis
    unfolding TimeFilter_processAlgorithmRemixData_def Let_def location_ids_of_features
    by (cases "departure_searches d"; cases "arrival_searches d")
       (simp_all add: dep arr searches_of_def)
qed


text \<open>
  Claim C6, as amended. For a payload whose searches all carry coordinates, the time-filter
  remix succeeds and (1) the flat locations list holds the location records, then the points
  of the departure searches, then those of the arrival searches; (2) no search keeps its
  \<open>coords\<close> key; (3) a departure search gets its own id as \<open>departure_location_id\<close>
  and an arrival search its own id as \<open>arrival_location_id\<close>; (4) the counterpart id list
  of every search is the list of the ids of the location records alone, in their order: the
  ids of the searches that were merged into the flat list are not part of it.
\<close>

theorem timefilter_remix:
  assumes "\<forall>s\<in>set (searches_of (departure_searches d)) \<union> set (searches_of (arrival_searches d)).
             s_coords s \<noteq> None"
  shows "\<exists>d'. TimeFilter_processAlgorithmRemixData locs d = Inr d'
     \<and> locations d'
         = Some (map location_of_feature locs
                   @ concat (map location_of_search (searches_of (departure_searches d)))
                   @ concat (map location_of_search (searches_of (arrival_searches d))))
     \<and> departure_searches d'
         = map_option (map (remixed_departure (map lf_id locs))) (departure_searches d)
     \<and> arrival_searches d'
         = map_option (map (remixed_arrival (map lf_id locs))) (arrival_searches d)
     \<and> (\<forall>s'\<in>set (searches_of (departure_searches d')).
           s_coords s' = None
           \<and> s_departure_location_id s' = Some (s_id s')
           \<and> s_arrival_location_ids s' = Some (map lf_id locs))
     \<and> (\<forall>s'\<in>set (searches_of (arrival_searches d')).
           s_coords s' = None
           \<and> s_arrival_location_id s' = Some (s_id s')
           \<and> s_departure_location_ids s' = Some (map lf_id locs))"
proof -
  from assms have
    "\<forall>s\<in>set (searches_of (departure_searches d)). s_coords s \<noteq> None"
    "\<forall>s\<in>set (searches_of (arrival_searches d)). s_coords s \<noteq> None"
    by simp_all
  from timefilter_remix_eq [OF this, of locs] show ?thesis
    by (auto simp: searches_of_def remixed_departure_def remixed_arrival_def split: option.splits)
qed

theorem timefilter_remix_witness:
  "\<exists>d'. TimeFilter_processAlgorithmRemixData [sample_location ''x'']
              (prepare_data (Some [sample_feature ''a'']) (Some [sample_feature ''b'']) 0) = Inr d'
         \<and> map l_id (locations_of (locations d')) = [''x'', ''a'', ''b'']
         \<and> map s_coords (searches_of (departure_searches d')) = [None]
         \<and> map s_departure_location_id (searches_of (departure_searches d')) = [Some ''a'']
         \<and> map s_arrival_location_ids (searches_of (departure_searches d')) = [Some [''x'']]
         \<and> map s_coords (searches_of (arrival_searches d')) = [None]
         \<and> map s_arrival_location_id (searches_of (arrival_searches d')) = [Some ''b'']
         \<and> map s_departure_location_ids (searches_of (arrival_searches d')) = [Some [''x'']]"
proof -
  let ?d = "prepare_data (Some [sample_feature ''a'']) (Some [sample_feature ''b'']) 0"
  have h: "\<forall>s\<in>set (searches_of (departure_searches ?d)) \<union> set (searches_of (arrival_searches ?d)).
             s_coords s \<noteq> None"
    by code_simp
  from timefilter_remix [OF h, of "[sample_location ''x'']"] obtain d' where
    d': "TimeFilter_processAlgorithmRemixData [sample_location ''x''] ?d = Inr d'"
    and l: "locations d'
         = Some (map location_of_feature [sample_location ''x'']
                   @ concat (map location_of_search (searches_of (departure_searches ?d)))
                   @ concat (map location_of_search (searches_of (arrival_searches ?d))))"
    and ds: "departure_searches d'
         = map_option (map (remixed_departure (map lf_id [sample_location ''x'']))) (departure_searches ?d)"
    and as: "arrival_searches d'
         = map_option (map (remixed_arrival (map lf_id [sample_location ''x'']))) (arrival_searches ?d)"
    by blast
  have 1: "map l_id (locations_of (locations d')) = [''x'', ''a'', ''b'']"
    unfolding l by code_simp
  have 2: "map s_coords (searches_of (departure_searches d')) = [None]"
    unfolding ds by code_simp
  have 3: "map s_departure_location_id (searches_of (departure_searches d')) = [Some ''a'']"
    unfolding ds by code_simp
  have 4: "map s_arrival_location_ids (searches_of (departure_searches d')) = [Some [''x'']]"
    unfolding ds by code_simp
  have 5: "map s_coords (searches_of (arrival_searches d')) = [None]"
    unfolding as by code_simp
  have 6: "map s_arrival_location_id (searches_of (arrival_searches d')) = [Some ''b'']"
    unfolding as by code_simp
  have 7: "map s_departure_location_ids (searches_of (arrival_searches d')) = [Some [''x'']]"
    unfolding as by code_simp
  show ?thesis
    apply (rule exI [of _ d'])
    apply (simp only: d' 1 2 3 4 5 6 7 simp_thms)
    done
qed

text \<open>
  The counterpart list is not the list of all other ids of the flat locations list: with
  the location \<open>x\<close> and the departure searches \<open>a\<close> and \<open>b\<close> the flat list has the ids
  \<open>x, a, b\<close>, and search \<open>a\<close> gets the arrival ids \<open>[x]\<close>, not \<open>[x, b]\<close>.
\<close>

theorem timefilter_counterpart_counterexample:
  "TimeFilter_processAlgorithmRemixData [sample_location ''x''] two_departures
     = Inr two_departures_remixed
   \<and> departure_searches two_departures_remixed = Some [remixed_a, remixed_b]
   \<and> s_arrival_location_ids remixed_a = Some [''x'']
   \<and> all_other_location_ids two_departures_remixed remixed_a = [''x'', ''b'']
   \<and> s_arrival_location_ids remixed_a
       \<noteq> Some (all_other_location_ids two_departures_remixed remixed_a)"
proof -
  have 1: "TimeFilter_processAlgorithmRemixData [sample_location ''x''] two_departures
     = Inr two_departures_remixed"
    by code_simp
  have 2: "departure_searches two_departures_remixed = Some [remixed_a, remixed_b]"
    by (simp add: two_departures_remixed_def)
  have 3: "s_arrival_location_ids remixed_a = Some [''x'']"
    by code_simp
  have 4: "all_other_location_ids two_departures_remixed remixed_a = [''x'', ''b'']"
    by code_simp
  from 1 2 3 4 show ?thesis by simp
qed


section \<open>The usage-limit check\<close>

lemma string_of_int_1: "string_of_int 1 = ''1''"
  by (simp add: string_of_int_def string_of_nat.simps)

lemma string_of_nat_1: "string_of_nat (Suc 0) = ''1''"
  by (simp add: string_of_nat.simps)

lemma string_of_nat_10: "string_of_nat 10 = ''10''"
  by (simp add: string_of_nat.simps)

lemma check_api_limit_sleeps_mono:
  "sleeps st \<le> sleeps (snd (check_api_limit e r n st))"
proof (induction n arbitrary: st)
  case 0
  show ?case by (simp add: reportError_def)
next
  case (Suc n)
  show ?case
  proof (cases "get_enabled (settings st) \<and> get_count (settings st) + 1 \<ge> get_limit (settings st) + 1")
    case True
    have "sleeps st \<le> sleeps (sleep e st')" if "sleeps st' = sleeps st" for st'
      using that by (simp add: sleep_def)
    then show ?thesis
      using True
      by (auto simp: Let_def reportError_def intro!: order_trans [OF _ Suc.IH])
  next
    case False
    then show ?thesis
      by (auto simp: Let_def pushInfo_def)
  qed
qed

lemma check_api_limit_proceeds:
  assumes "\<not> over_limit (settings st)"
  shows "fst (check_api_limit e r (Suc n) st) = Inr ()"
    and "sleeps (snd (check_api_limit e r (Suc n) st)) = sleeps st"
    and "settings (snd (check_api_limit e r (Suc n) st)) = settings st"
  using assms by (auto simp: over_limit_def Let_def pushInfo_def)

lemma check_api_limit_exhausted:
  assumes "\<forall>k<n. over_limit (settings_after e (sleeps st) (settings st) k)"
  shows "fst (check_api_limit e r n st) = Inl (QgsProcessingException ''API usage limit warning'')
       \<and> sleeps (snd (check_api_limit e r n st)) = sleeps st + n
       \<and> last (feedback (snd (check_api_limit e r n st)))
            = ReportError ''Execution canceled because of API limit warning.'' True"
  using assms
proof (induction n arbitrary: st)
  case 0
  show ?case by (simp add: reportError_def)
next
  case (Suc n)
  from Suc.prems have now: "over_limit (settings st)"
    by (metis settings_after.simps(1) zero_less_Suc)
  define st1 where "st1 = sleep e
               (reportError
                  (''Execution will resume in 10 seconds (retry '' @ string_of_nat (r - Suc n + 1)
                     @ '' out of '' @ string_of_nat r @ '')'') False
                  (if r - Suc n = 0 then
                     reportError ''To continue, disable or increase the limit in the plugin settings, or reset the queries counter. Now is your chance to do the changes.'' False
                       (reportError ''WARNING : API usage warning limit reached !'' False st)
                   else st))"
  have s1: "sleeps st1 = Suc (sleeps st)" "settings st1 = operator e (sleeps st) (settings st)"
    by (simp_all add: st1_def sleep_def reportError_def)
  have step: "check_api_limit e r (Suc n) st = check_api_limit e r n st1"
    using now by (simp add: over_limit_def Let_def st1_def)
  have "\<forall>k<n. over_limit (settings_after e (sleeps st1) (settings st1) k)"
  proof (intro allI impI)
    fix k assume "k < n"
    then have "Suc k < Suc n" by simp
    with Suc.prems have "over_limit (settings_after e (sleeps st) (settings st) (Suc k))"
      by blast
    then show "over_limit (settings_after e (sleeps st1) (settings st1) k)"
      by (simp add: s1)
  qed
  from Suc.IH [OF this] show ?case
    unfolding step by (simp add: s1)
qed


lemma check_api_limit_enters_wait:
  assumes "over_limit (settings st)"
  shows "check_api_limit e 10 10 st
           = check_api_limit e 10 9
               (sleep e
                 (reportError ''Execution will resume in 10 seconds (retry 1 out of 10)'' False
                   (reportError ''To continue, disable or increase the limit in the plugin settings, or reset the queries counter. Now is your chance to do the changes.'' False
                     (reportError ''WARNING : API usage warning limit reached !'' False st))))"
proof -
  have "check_api_limit e 10 10 st = check_api_limit e 10 (Suc 9) st"
    by simp
  also have "\<dots> = check_api_limit e 10 9
               (sleep e
                 (reportError ''Execution will resume in 10 seconds (retry 1 out of 10)'' False
                   (reportError ''To continue, disable or increase the limit in the plugin settings, or reset the queries counter. Now is your chance to do the changes.'' False
                     (reportError ''WARNING : API usage warning limit reached !'' False st))))"
    using assms unfolding check_api_limit.simps
    by (simp add: over_limit_def Let_def string_of_nat_1 string_of_nat_10)
  finally show ?thesis .
qed

text \<open>
  Claim C3. With the usage warning enabled and the limit \<open>L\<close>: when the persisted counter
  is \<open>L - 1\<close> before the call, the check succeeds at its first iteration with the notice
  that one query remains, and nothing has slept; when the counter is \<open>L\<close>, the first
  iteration reports the warning, sleeps, and only then checks again (the remaining nine
  iterations run from the state after the sleep), so at least one sleep has happened when
  the check returns.
\<close>

theorem rate_guard_threshold:
  assumes "get_enabled (settings st)"
  shows "(get_count (settings st) = get_limit (settings st) - 1 \<longrightarrow>
            check_api_limit e 10 10 st
              = (Inr (), pushInfo ''API usage warning limit not reached yet (1 queries remaining)...'' st)
            \<and> sleeps (snd (check_api_limit e 10 10 st)) = sleeps st)
       \<and> (get_count (settings st) = get_limit (settings st) \<longrightarrow>
            check_api_limit e 10 10 st
              = check_api_limit e 10 9
                  (sleep e
                    (reportError ''Execution will resume in 10 seconds (retry 1 out of 10)'' False
                      (reportError ''To continue, disable or increase the limit in the plugin settings, or reset the queries counter. Now is your chance to do the changes.'' False
                        (reportError ''WARNING : API usage warning limit reached !'' False st))))
            \<and> sleeps st < sleeps (snd (check_api_limit e 10 10 st)))"
proof (intro conjI impI)
  assume c: "get_count (settings st) = get_limit (settings st) - 1"
  have "check_api_limit e 10 10 st = check_api_limit e 10 (Suc 9) st"
    by simp
  also have "\<dots> = (Inr (), pushInfo ''API usage warning limit not reached yet (1 queries remaining)...'' st)"
    using assms c unfolding check_api_limit.simps
    by (simp add: Let_def string_of_int_1)
  finally show r: "check_api_limit e 10 10 st
              = (Inr (), pushInfo ''API usage warning limit not reached yet (1 queries remaining)...'' st)" .
  show "sleeps (snd (check_api_limit e 10 10 st)) = sleeps st"
    by (simp add: r pushInfo_def)
next
  assume c: "get_count (settings st) = get_limit (settings st)"
  with assms have o: "over_limit (settings st)"
    by (simp add: over_limit_def)
  show w: "check_api_limit e 10 10 st
              = check_api_limit e 10 9
                  (sleep e
                    (reportError ''Execution will resume in 10 seconds (retry 1 out of 10)'' False
                      (reportError ''To continue, disable or increase the limit in the plugin settings, or reset the queries counter. Now is your chance to do the changes.'' False
                        (reportError ''WARNING : API usage warning limit reached !'' False st))))"
    by (rule check_api_limit_enters_wait [OF o])
  have "sleeps st < sleeps (sleep e st')" if "sleeps st' = sleeps st" for st'
    using that by (simp add: sleep_def)
  then show "sleeps st < sleeps (snd (check_api_limit e 10 10 st))"
    unfolding w
    by (intro less_le_trans [OF _ check_api_limit_sleeps_mono]) (simp add: reportError_def)
qed

theorem rate_guard_threshold_witness:
  "check_api_limit (sample_env (\<lambda>n rq. Responds ok_response)) 10 10 (sample_state (sample_settings 9 10 False))
     = (Inr (), pushInfo ''API usage warning limit not reached yet (1 queries remaining)...''
                  (sample_state (sample_settings 9 10 False)))
   \<and> sleeps (snd (check_api_limit (sample_env (\<lambda>n rq. Responds ok_response)) 10 10
                     (sample_state (sample_settings 9 10 False))))
       = sleeps (sample_state (sample_settings 9 10 False))
   \<and> sleeps (sample_state (sample_settings 10 10 False))
       < sleeps (snd (check_api_limit (sample_env (\<lambda>n rq. Responds ok_response)) 10 10
                         (sample_state (sample_settings 10 10 False))))"
proof -
  have e9: "get_enabled (settings (sample_state (sample_settings 9 10 False)))"
    and c9: "get_count (settings (sample_state (sample_settings 9 10 False)))
               = get_limit (settings (sample_state (sample_settings 9 10 False))) - 1"
    by (simp_all add: sample_state_def sample_settings_def get_enabled_def get_count_def get_limit_def)
  have e10: "get_enabled (settings (sample_state (sample_settings 10 10 False)))"
    and c10: "get_count (settings (sample_state (sample_settings 10 10 False)))
               = get_limit (settings (sample_state (sample_settings 10 10 False)))"
    by (simp_all add: sample_state_def sample_settings_def get_enabled_def get_count_def get_limit_def)
  from rate_guard_threshold [OF e9, of "sample_env (\<lambda>n rq. Responds ok_response)"] c9
       rate_guard_threshold [OF e10, of "sample_env (\<lambda>n rq. Responds ok_response)"] c10
  show ?thesis
    by blast
qed


section \<open>Exhausting the usage-limit check\<close>

lemma loaded_searches_have_coords:
  "\<forall>s\<in>set (searches_of (load_searches d i source)). s_coords s \<noteq> None"
  by (cases source) (auto simp: load_searches_def searches_of_def make_search_def)

lemma remix_prepared:
  "\<exists>d. processAlgorithmRemixData alg (prepare_data dep arr j) = Inr d"
proof (cases alg)
  case (TimeMapAlgorithm cu ci)
  then show ?thesis by simp
next
  case (TimeFilterAlgorithm locs)
  have "\<forall>s\<in>set (searches_of (departure_searches (prepare_data dep arr j))). s_coords s \<noteq> None"
       "\<forall>s\<in>set (searches_of (arrival_searches (prepare_data dep arr j))). s_coords s \<noteq> None"
    by (simp_all add: prepare_data_def loaded_searches_have_coords)
  from timefilter_remix_eq [OF this, of locs] show ?thesis
    using TimeFilterAlgorithm by simp
qed

lemma settings_after_idle:
  "operator e = (\<lambda>n s. s) \<Longrightarrow> settings_after e t s k = s"
  by (induction k arbitrary: t) simp_all

lemma loading_messages_frame:
  "settings (loading_messages d a st) = settings st"
  "sleeps (loading_messages d a st) = sleeps st"
  by (simp_all add: loading_messages_def pushDebugInfo_def Let_def)

text \<open>
  Claim C4. If the usage warning is enabled and the counter is at or above the limit at each
  of the ten checks of a request cycle (whatever the operator does to the settings while
  the check sleeps), then the cycle sleeps exactly ten times, reports
  \<open>Execution canceled because of API limit warning.\<close> as a fatal error, and raises the
  exception \<open>API usage limit warning\<close>; no request is handed to the session, and the loop
  over the slices ends with that exception.
\<close>

theorem rate_guard_exhaustion:
  assumes "\<forall>k<10. over_limit (settings_after e (sleeps st) (settings st) k)"
  shows "\<exists>st'. request_cycle e alg APP_ID API_KEY dep arr j st
                 = (Inl (QgsProcessingException ''API usage limit warning''), st')
          \<and> sleeps st' = sleeps st + 10
          \<and> requests st' = requests st
          \<and> last (feedback st')
               = ReportError ''Execution canceled because of API limit warning.'' True
          \<and> run_slices e alg APP_ID API_KEY dep arr (j # rest) results st
               = (Inl (QgsProcessingException ''API usage limit warning''), st')"
proof -
  define st2 where
    "st2 = pushDebugInfo ''Checking API limit warnings...'' (loading_messages dep arr st)"
  have frame: "settings st2 = settings st" "sleeps st2 = sleeps st" "requests st2 = requests st"
    by (simp_all add: st2_def pushDebugInfo_def loading_messages_frame loading_messages_requests)
  obtain c st3 where g: "check_api_limit e 10 10 st2 = (c, st3)"
    by (cases "check_api_limit e 10 10 st2")
  from assms have "\<forall>k<10. over_limit (settings_after e (sleeps st2) (settings st2) k)"
    by (simp add: frame)
  from check_api_limit_exhausted [OF this, of 10] g
  have c: "c = Inl (QgsProcessingException ''API usage limit warning'')"
    and s: "sleeps st3 = sleeps st + 10"
    and l: "last (feedback st3) = ReportError ''Execution canceled because of API limit warning.'' True"
    by (simp_all add: frame)
  from check_api_limit_requests_eq [OF g] have r: "requests st3 = requests st"
    by (simp add: frame)
  obtain d where d: "processAlgorithmRemixData alg (prepare_data dep arr j) = Inr d"
    using remix_prepared by blast
  have cyc: "request_cycle e alg APP_ID API_KEY dep arr j st
               = (Inl (QgsProcessingException ''API usage limit warning''), st3)"
    unfolding request_cycle_def
    using g c d by (simp add: Let_def st2_def)
  then have "run_slices e alg APP_ID API_KEY dep arr (j # rest) results st
               = (Inl (QgsProcessingException ''API usage limit warning''), st3)"
    by simp
  with cyc s r l show ?thesis by blast
qed

theorem rate_guard_exhaustion_witness:
  "fst (request_cycle (sample_env (\<lambda>n rq. Responds ok_response)) (TimeMapAlgorithm False False)
          ''app'' ''secret'' (Some eleven_features) None 0 (sample_state (sample_settings 10 10 False)))
     = Inl (QgsProcessingException ''API usage limit warning'')
   \<and> sleeps (snd (request_cycle (sample_env (\<lambda>n rq. Responds ok_response))
          (TimeMapAlgorithm False False) ''app'' ''secret'' (Some eleven_features) None 0
          (sample_state (sample_settings 10 10 False))))
       = sleeps (sample_state (sample_settings 10 10 False)) + 10
   \<and> requests (snd (request_cycle (sample_env (\<lambda>n rq. Responds ok_response))
          (TimeMapAlgorithm False False) ''app'' ''secret'' (Some eleven_features) None 0
          (sample_state (sample_settings 10 10 False))))
       = requests (sample_state (sample_settings 10 10 False))"
proof -
  let ?e = "sample_env (\<lambda>n rq. Responds ok_response)"
  let ?st = "sample_state (sample_settings 10 10 False)"
  have idle: "operator ?e = (\<lambda>n s. s)"
    by (simp add: sample_env_def)
  have "over_limit (settings ?st)"
    by (simp add: over_limit_def sample_state_def sample_settings_def get_enabled_def
          get_count_def get_limit_def)
  then have h: "\<forall>k<10. over_limit (settings_after ?e (sleeps ?st) (settings ?st) k)"
    by (simp add: settings_after_idle [OF idle])
  from rate_guard_exhaustion
         [OF h, of "TimeMapAlgorithm False False" "''app''" "''secret''" "Some eleven_features" None 0]
  obtain st' where
    "request_cycle ?e (TimeMapAlgorithm False False) ''app'' ''secret'' (Some eleven_features) None 0 ?st
       = (Inl (QgsProcessingException ''API usage limit warning''), st')"
    "sleeps st' = sleeps ?st + 10" "requests st' = requests ?st"
    by blast
  then show ?thesis by simp
qed


section \<open>Failures abort the whole operation\<close>

lemma run_slices_append:
  "run_slices e alg i k d a pre results st = (Inr rs, st1)
     \<Longrightarrow> run_slices e alg i k d a (pre @ post) results st = run_slices e alg i k d a post rs st1"
proof (induction pre arbitrary: results st)
  case Nil
  then show ?case by simp
next
  case (Cons j pre)
  from Cons.prems obtain r1 st' where
    c: "request_cycle e alg i k d a j st = (Inr r1, st')"
    and r: "run_slices e alg i k d a pre (results @ r1) st' = (Inr rs, st1)"
    by (auto split: prod.splits sum.splits)
  from Cons.IH [OF r] c show ?case by simp
qed

lemma run_slices_abort:
  assumes "run_slices e alg i k d a pre results st = (Inr rs, st1)"
      and "request_cycle e alg i k d a j st1 = (Inl x, st2)"
  shows "run_slices e alg i k d a (pre @ j # post) results st = (Inl x, st2)"
  using run_slices_append [OF assms(1), of "j # post"] assms(2) by simp

lemma processAlgorithm_abort:
  assumes "truthy (fst (credentials e))" "truthy (snd (credentials e))"
      and "run_slices e alg (string_of_credential (fst (credentials e)))
             (string_of_credential (snd (credentials e))) d a (slices d a) []
             (announce_slicing (slicing_count d a)
               (pushDebugInfo ''Starting TimeMapAlgorithm...'' st)) = (Inl x, st2)"
  shows "processAlgorithm e alg d a st = (Inl x, st2)"
  using assms unfolding processAlgorithm_def by (simp add: Let_def)

lemma request_cycle_success:
  assumes "request_cycle e alg i k d a j st = (Inr rs, st')"
  shows "\<exists>dd r b.
           processAlgorithmRemixData alg (prepare_data d a j) = Inr dd
         \<and> fst (check_api_limit e 10 10
                  (pushDebugInfo ''Checking API limit warnings...'' (loading_messages d a st)))
             = Inr ()
         \<and> send e (length (requests st))
              (post_request alg (request_headers alg i k) (json_dumps e dd)) = Responds r
         \<and> json_loads e (response_text r) = Some b
         \<and> \<not> raises_for_status r
         \<and> b_results b = Some rs"
proof -
  define st2 where
    "st2 = pushDebugInfo ''Checking API limit warnings...'' (loading_messages d a st)"
  obtain c st3 where g: "check_api_limit e 10 10 st2 = (c, st3)"
    by (cases "check_api_limit e 10 10 st2")
  have r3: "requests st3 = requests st"
    using check_api_limit_requests_eq [OF g]
    by (simp add: st2_def pushDebugInfo_def loading_messages_requests)
  obtain dd where dd: "processAlgorithmRemixData alg (prepare_data d a j) = Inr dd"
    using remix_prepared by blast
  define st4 where "st4 = pushDebugInfo ''Making request to API endpoint...'' st3"
  define st5 where
    "st5 = (if get_log_calls (settings st4)
            then log_request (url alg) (request_headers alg i k) (json_dumps e dd) st4 else st4)"
  have r5: "requests st5 = requests st"
    by (simp add: st5_def st4_def log_request_requests pushDebugInfo_def r3)
  have cyc: "request_cycle e alg i k d a j st
          = (case c of
               Inl x \<Rightarrow> (Inl x, st3)
             | Inr u \<Rightarrow>
                 make_request e (post_request alg (request_headers alg i k) (json_dumps e dd))
                   (get_log_calls (settings st4)) st5)"
    unfolding request_cycle_def Let_def dd st2_def [symmetric] g st4_def st5_def
    by (simp split: sum.split)
  show ?thesis
  proof (cases c)
    case (Inl x)
    with cyc assms show ?thesis by simp
  next
    case (Inr u)
    with cyc assms have
      m: "make_request e (post_request alg (request_headers alg i k) (json_dumps e dd))
            (get_log_calls (settings st4)) st5 = (Inr rs, st')"
      by simp
    have "fst (check_api_limit e 10 10 st2) = Inr ()"
      using g Inr by simp
    with make_request_success [OF m] dd show ?thesis
      unfolding r5 st2_def by blast
  qed
qed


text \<open>
  Claim C5. If the request cycle of a slice raises after the cycles of the slices before it
  have succeeded and accumulated results, the loop returns just that exception and the
  state the failing cycle left: the accumulated results are dropped and the later slices
  are not run. The whole operation then returns the exception, so the output stage is
  never entered and no result list reaches the caller. A cycle returns results only when
  the usage-limit check let it pass, the session answered, the body decoded, and the status
  was no error status; each of the four failures therefore makes the cycle raise.
\<close>

theorem failure_discards_results:
  "(run_slices e alg i k d a pre results st = (Inr rs, st1)
      \<and> request_cycle e alg i k d a j st1 = (Inl x, st2)
      \<longrightarrow> run_slices e alg i k d a (pre @ j # post) results st = (Inl x, st2))
   \<and> (truthy (fst (credentials e)) \<and> truthy (snd (credentials e))
      \<and> slices d a = pre @ j # post
      \<and> run_slices e alg (string_of_credential (fst (credentials e)))
            (string_of_credential (snd (credentials e))) d a pre []
            (announce_slicing (slicing_count d a)
              (pushDebugInfo ''Starting TimeMapAlgorithm...'' st)) = (Inr rs, st1)
      \<and> request_cycle e alg (string_of_credential (fst (credentials e)))
            (string_of_credential (snd (credentials e))) d a j st1 = (Inl x, st2)
      \<longrightarrow> processAlgorithm e alg d a st = (Inl x, st2))
   \<and> (request_cycle e alg i k d a j st = (Inr rs, st1)
      \<longrightarrow> (\<exists>dd r b.
             processAlgorithmRemixData alg (prepare_data d a j) = Inr dd
           \<and> fst (check_api_limit e 10 10
                    (pushDebugInfo ''Checking API limit warnings...'' (loading_messages d a st)))
               = Inr ()
           \<and> send e (length (requests st))
                (post_request alg (request_headers alg i k) (json_dumps e dd)) = Responds r
           \<and> json_loads e (response_text r) = Some b
           \<and> \<not> raises_for_status r
           \<and> b_results b = Some rs))"
proof (intro conjI impI)
  assume "run_slices e alg i k d a pre results st = (Inr rs, st1)
            \<and> request_cycle e alg i k d a j st1 = (Inl x, st2)"
  then show "run_slices e alg i k d a (pre @ j # post) results st = (Inl x, st2)"
    using run_slices_abort by blast
next
  assume h: "truthy (fst (credentials e)) \<and> truthy (snd (credentials e))
      \<and> slices d a = pre @ j # post
      \<and> run_slices e alg (string_of_credential (fst (credentials e)))
            (string_of_credential (snd (credentials e))) d a pre []
            (announce_slicing (slicing_count d a)
              (pushDebugInfo ''Starting TimeMapAlgorithm...'' st)) = (Inr rs, st1)
      \<and> request_cycle e alg (string_of_credential (fst (credentials e)))
            (string_of_credential (snd (credentials e))) d a j st1 = (Inl x, st2)"
  then have "run_slices e alg (string_of_credential (fst (credentials e)))
            (string_of_credential (snd (credentials e))) d a (slices d a) []
            (announce_slicing (slicing_count d a)
              (pushDebugInfo ''Starting TimeMapAlgorithm...'' st)) = (Inl x, st2)"
    using run_slices_abort [of e alg _ _ d a pre "[]" _ rs st1 j x st2 post] by simp
  with h show "processAlgorithm e alg d a st = (Inl x, st2)"
    using processAlgorithm_abort by blast
next
  assume "request_cycle e alg i k d a j st = (Inr rs, st1)"
  then show "\<exists>dd r b.
             processAlgorithmRemixData alg (prepare_data d a j) = Inr dd
           \<and> fst (check_api_limit e 10 10
                    (pushDebugInfo ''Checking API limit warnings...'' (loading_messages d a st)))
               = Inr ()
           \<and> send e (length (requests st))
                (post_request alg (request_headers alg i k) (json_dumps e dd)) = Responds r
           \<and> json_loads e (response_text r) = Some b
           \<and> \<not> raises_for_status r
           \<and> b_results b = Some rs"
    by (rule request_cycle_success)
qed

theorem failure_discards_results_witness:
  "fst (run_slices (sample_env (\<lambda>n rq. if n = 0 then Responds ok_response else Responds error_response))
          (TimeMapAlgorithm False False) ''app'' ''secret'' (Some eleven_features) None [0] []
          (announce_slicing 2 (pushDebugInfo ''Starting TimeMapAlgorithm...''
             (sample_state (sample_settings 0 10 False)))))
     = Inr [sample_result ''a'']
   \<and> fst (processAlgorithm (sample_env (\<lambda>n rq. if n = 0 then Responds ok_response else Responds error_response))
          (TimeMapAlgorithm False False) (Some eleven_features) None
          (sample_state (sample_settings 0 10 False)))
     = Inl (QgsProcessingException ''Got error 400 form API'')
   \<and> fst (check_api_limit (sample_env (\<lambda>n rq. if n = 0 then Responds ok_response else Responds error_response))
          10 10 (pushDebugInfo ''Checking API limit warnings...''
                   (loading_messages (Some eleven_features) None
                      (sample_state (sample_settings 0 10 False)))))
     = Inr ()"
proof -
  let ?e = "sample_env (\<lambda>n rq. if n = 0 then Responds ok_response else Responds error_response)"
  let ?alg = "TimeMapAlgorithm False False"
  let ?d = "Some eleven_features"
  let ?st = "sample_state (sample_settings 0 10 False)"
  let ?i = "string_of_credential (fst (credentials ?e))"
  let ?k = "string_of_credential (snd (credentials ?e))"
  let ?start = "announce_slicing (slicing_count ?d None)
                (pushDebugInfo ''Starting TimeMapAlgorithm...'' ?st)"
  let ?pre = "run_slices ?e ?alg ?i ?k ?d None [0] [] ?start"
  let ?cyc = "request_cycle ?e ?alg ?i ?k ?d None 1 (snd ?pre)"
  let ?ok = "request_cycle ?e ?alg ?i ?k ?d None 0 ?st"
  have ik: "?i = ''app''" "?k = ''secret''"
    by (simp_all add: sample_env_def string_of_credential_def)
  have n: "slicing_count ?d None = 2"
    by (simp add: slicing_count_def feature_count_def eleven_features_def slicing_size_def)
  have c: "truthy (fst (credentials ?e))" "truthy (snd (credentials ?e))"
    by (simp_all add: sample_env_def truthy_def)
  have sl: "slices ?d None = [0] @ 1 # []"
    by (simp add: slices_def n upt_conv_Cons)
  have p: "fst ?pre = Inr [sample_result ''a'']"
    by code_simp
  then have p': "?pre = (Inr [sample_result ''a''], snd ?pre)"
    by (simp add: prod_eq_iff)
  have f: "fst ?cyc = Inl (QgsProcessingException ''Got error 400 form API'')"
    by code_simp
  then have f': "?cyc = (Inl (QgsProcessingException ''Got error 400 form API''), snd ?cyc)"
    by (simp add: prod_eq_iff)
  have o: "fst ?ok = Inr [sample_result ''a'']"
    by code_simp
  then have o': "?ok = (Inr [sample_result ''a''], snd ?ok)"
    by (simp add: prod_eq_iff)
  have "processAlgorithm ?e ?alg ?d None ?st
          = (Inl (QgsProcessingException ''Got error 400 form API''), snd ?cyc)"
    by (rule mp [OF conjunct1 [OF conjunct2 [OF failure_discards_results
         [of ?e ?alg ?i ?k ?d None "[0]" "[]" ?st "[sample_result ''a'']" "snd ?pre" 1
             "QgsProcessingException ''Got error 400 form API''" "snd ?cyc" "[]"]]]])
       (intro conjI c sl p' f')
  then have 1: "fst (processAlgorithm ?e ?alg ?d None ?st)
          = Inl (QgsProcessingException ''Got error 400 form API'')"
    by simp
  have "\<exists>dd r b.
             processAlgorithmRemixData ?alg (prepare_data ?d None 0) = Inr dd
           \<and> fst (check_api_limit ?e 10 10
                    (pushDebugInfo ''Checking API limit warnings...'' (loading_messages ?d None ?st)))
               = Inr ()
           \<and> send ?e (length (requests ?st))
                (post_request ?alg (request_headers ?alg ?i ?k) (json_dumps ?e dd)) = Responds r
           \<and> json_loads ?e (response_text r) = Some b
           \<and> \<not> raises_for_status r
           \<and> b_results b = Some [sample_result ''a'']"
    by (rule mp [OF conjunct2 [OF conjunct2 [OF failure_discards_results
         [of ?e ?alg ?i ?k ?d None "[]" "[]" ?st "[sample_result ''a'']" "snd ?ok" 0]]]])
       (rule o')
  then have 2: "fst (check_api_limit ?e 10 10
             (pushDebugInfo ''Checking API limit warnings...'' (loading_messages ?d None ?st)))
         = Inr ()"
    by blast
  from p 1 2 show ?thesis
    unfolding ik n by blast
qed


section \<open>Every cycle sends the batch of its slice\<close>

lemma batch_requests_single:
  "\<exists>d. processAlgorithmRemixData alg (prepare_data dep arr j) = Inr d
       \<and> batch_requests e alg i k dep arr j
           = [post_request alg (request_headers alg i k) (json_dumps e d)]"
  using remix_prepared [of alg dep arr j] by (auto simp: batch_requests_def)

lemma request_cycle_requests_exact:
  "requests (snd (request_cycle e alg i k d a j st))
     = requests st @ (if fst (check_api_limit e 10 10
                                (pushDebugInfo ''Checking API limit warnings...''
                                   (loading_messages d a st))) = Inr ()
                      then batch_requests e alg i k d a j else [])"
proof -
  define st2 where
    "st2 = pushDebugInfo ''Checking API limit warnings...'' (loading_messages d a st)"
  obtain c st3 where g: "check_api_limit e 10 10 st2 = (c, st3)"
    by (cases "check_api_limit e 10 10 st2")
  have r3: "requests st3 = requests st"
    using check_api_limit_requests_eq [OF g]
    by (simp add: st2_def pushDebugInfo_def loading_messages_requests)
  obtain dd where dd: "processAlgorithmRemixData alg (prepare_data d a j) = Inr dd"
    using remix_prepared by blast
  then have b: "batch_requests e alg i k d a j
                  = [post_request alg (request_headers alg i k) (json_dumps e dd)]"
    by (simp add: batch_requests_def)
  define st4 where "st4 = pushDebugInfo ''Making request to API endpoint...'' st3"
  define st5 where
    "st5 = (if get_log_calls (settings st4)
            then log_request (url alg) (request_headers alg i k) (json_dumps e dd) st4 else st4)"
  have r5: "requests st5 = requests st"
    by (simp add: st5_def st4_def log_request_requests pushDebugInfo_def r3)
  have cyc: "request_cycle e alg i k d a j st
          = (case c of
               Inl x \<Rightarrow> (Inl x, st3)
             | Inr u \<Rightarrow>
                 make_request e (post_request alg (request_headers alg i k) (json_dumps e dd))
                   (get_log_calls (settings st4)) st5)"
    unfolding request_cycle_def Let_def dd st2_def [symmetric] g st4_def st5_def
    by (simp split: sum.split)
  show ?thesis
  proof (cases c)
    case (Inl x)
    from g Inl have "fst (check_api_limit e 10 10 st2) \<noteq> Inr ()" by simp
    then show ?thesis
      using cyc Inl r3 by (simp add: st2_def)
  next
    case (Inr u)
    from g Inr have "fst (check_api_limit e 10 10 st2) = Inr ()" by simp
    moreover have "requests (snd (make_request e
                      (post_request alg (request_headers alg i k) (json_dumps e dd))
                      (get_log_calls (settings st4)) st5))
                   = requests st @ [post_request alg (request_headers alg i k) (json_dumps e dd)]"
      by (simp add: make_request_requests r5)
    ultimately show ?thesis
      using cyc Inr b by (simp add: st2_def)
  qed
qed

lemma request_cycle_requests_sent:
  assumes "request_cycle e alg i k d a j st = (Inr rs, st')"
  shows "requests st' = requests st @ batch_requests e alg i k d a j"
proof -
  from request_cycle_success [OF assms]
  have "fst (check_api_limit e 10 10
               (pushDebugInfo ''Checking API limit warnings...'' (loading_messages d a st)))
          = Inr ()"
    by blast
  with request_cycle_requests_exact [of e alg i k d a j st] assms show ?thesis
    by simp
qed

lemma request_cycle_requests_either:
  "requests (snd (request_cycle e alg i k d a j st)) = requests st
   \<or> requests (snd (request_cycle e alg i k d a j st))
        = requests st @ batch_requests e alg i k d a j"
  unfolding request_cycle_requests_exact by simp

lemma run_slices_requests_exact:
  "\<exists>n. n \<le> length js
      \<and> requests (snd (run_slices e alg i k d a js results st))
          = requests st @ concat (map (batch_requests e alg i k d a) (take n js))
      \<and> ((\<exists>rs. fst (run_slices e alg i k d a js results st) = Inr rs) \<longrightarrow> n = length js)"
proof (induction js arbitrary: results st)
  case Nil
  show ?case by simp
next
  case (Cons j js)
  obtain c st1 where cyc: "request_cycle e alg i k d a j st = (c, st1)"
    by (cases "request_cycle e alg i k d a j st")
  show ?case
  proof (cases c)
    case (Inl x)
    then have run: "run_slices e alg i k d a (j # js) results st = (Inl x, st1)"
      using cyc by simp
    from request_cycle_requests_either [of e alg i k d a j st] cyc
    consider "requests st1 = requests st"
      | "requests st1 = requests st @ batch_requests e alg i k d a j"
      by auto
    then show ?thesis
    proof cases
      case 1
      then show ?thesis
        unfolding run by (intro exI [of _ 0]) simp
    next
      case 2
      then show ?thesis
        unfolding run by (intro exI [of _ 1]) simp
    qed
  next
    case (Inr r1)
    then have run: "run_slices e alg i k d a (j # js) results st
                      = run_slices e alg i k d a js (results @ r1) st1"
      using cyc by simp
    from cyc Inr have s1: "requests st1 = requests st @ batch_requests e alg i k d a j"
      using request_cycle_requests_sent by blast
    from Cons.IH [of "results @ r1" st1] obtain n where
      n: "n \<le> length js"
         "requests (snd (run_slices e alg i k d a js (results @ r1) st1))
            = requests st1 @ concat (map (batch_requests e alg i k d a) (take n js))"
         "(\<exists>rs. fst (run_slices e alg i k d a js (results @ r1) st1) = Inr rs) \<longrightarrow> n = length js"
      by blast
    show ?thesis
      unfolding run using n s1 by (intro exI [of _ "Suc n"]) simp
  qed
qed

lemma run_slices_requests_all:
  assumes "run_slices e alg i k d a js results st = (Inr rs, st')"
  shows "requests st' = requests st @ concat (map (batch_requests e alg i k d a) js)"
  using run_slices_requests_exact [of js e alg i k d a results st] assms by auto


lemma processAlgorithm_requests_exact:
  "\<exists>n. n \<le> length (slices d a)
      \<and> requests (snd (processAlgorithm e alg d a st))
          = requests st
              @ concat (map (batch_requests e alg (string_of_credential (fst (credentials e)))
                               (string_of_credential (snd (credentials e))) d a)
                          (take n (slices d a)))
      \<and> ((\<exists>out. fst (processAlgorithm e alg d a st) = Inr out) \<longrightarrow> n = length (slices d a))"
proof (cases "\<not> truthy (fst (credentials e)) \<or> \<not> truthy (snd (credentials e))")
  case True
  then have "requests (snd (processAlgorithm e alg d a st)) = requests st"
    "\<not> (\<exists>out. fst (processAlgorithm e alg d a st) = Inr out)"
    unfolding processAlgorithm_def by (auto simp: Let_def reportError_def pushDebugInfo_def)
  then show ?thesis
    by (intro exI [of _ 0]) simp
next
  case False
  define st1 where
    "st1 = announce_slicing (slicing_count d a) (pushDebugInfo ''Starting TimeMapAlgorithm...'' st)"
  define run where
    "run = run_slices e alg (string_of_credential (fst (credentials e)))
             (string_of_credential (snd (credentials e))) d a (slices d a) [] st1"
  have st1: "requests st1 = requests st"
    by (simp add: st1_def announce_slicing_requests pushDebugInfo_def)
  from run_slices_requests_exact
         [of "slices d a" e alg "string_of_credential (fst (credentials e))"
             "string_of_credential (snd (credentials e))" d a "[]" st1]
  obtain n where n: "n \<le> length (slices d a)"
    "requests (snd run)
       = requests st
           @ concat (map (batch_requests e alg (string_of_credential (fst (credentials e)))
                            (string_of_credential (snd (credentials e))) d a)
                       (take n (slices d a)))"
    "(\<exists>rs. fst run = Inr rs) \<longrightarrow> n = length (slices d a)"
    unfolding run_def st1 by blast
  have pa: "processAlgorithm e alg d a st =
          (case run of
             (Inl x, st2) \<Rightarrow> (Inl x, st2)
           | (Inr results, st2) \<Rightarrow>
               processAlgorithmOutput alg results (pushDebugInfo ''Loading response to layer...'' st2))"
    using False unfolding processAlgorithm_def run_def st1_def by (simp add: Let_def)
  have r: "requests (snd (processAlgorithm e alg d a st)) = requests (snd run)"
    unfolding pa
    by (auto simp: processAlgorithmOutput_requests pushDebugInfo_def split: prod.split sum.split)
  have s: "(\<exists>out. fst (processAlgorithm e alg d a st) = Inr out) \<longrightarrow> (\<exists>rs. fst run = Inr rs)"
    unfolding pa by (auto split: prod.splits sum.splits)
  from n r s show ?thesis
    by (intro exI [of _ n]) simp
qed

lemma prepared_ids:
  "map s_id (searches_of (load_searches side i source))
     = map f_id (take 10 (drop (i * 10) (features_of source)))"
  by (cases source)
     (simp_all add: load_searches_take_drop searches_of_def features_of_def make_search_def
        slicing_size_def comp_def)

lemma batch_payload:
  "\<exists>d. processAlgorithmRemixData alg (prepare_data dep arr i) = Inr d
       \<and> batch_requests e alg APP_ID API_KEY dep arr i
           = [post_request alg (request_headers alg APP_ID API_KEY) (json_dumps e d)]
       \<and> (case alg of
             TimeMapAlgorithm cu ci \<Rightarrow>
               departure_searches d = departure_searches (prepare_data dep arr i)
               \<and> arrival_searches d = arrival_searches (prepare_data dep arr i)
           | TimeFilterAlgorithm locs \<Rightarrow>
               departure_searches d
                 = map_option (map (remixed_departure (map lf_id locs)))
                     (departure_searches (prepare_data dep arr i))
               \<and> arrival_searches d
                   = map_option (map (remixed_arrival (map lf_id locs)))
                       (arrival_searches (prepare_data dep arr i)))
       \<and> map s_id (searches_of (departure_searches d))
           = map f_id (take 10 (drop (i * 10) (features_of dep)))
       \<and> map s_id (searches_of (arrival_searches d))
           = map f_id (take 10 (drop (i * 10) (features_of arr)))"
proof (cases alg)
  case (TimeMapAlgorithm cu ci)
  let ?d = "TimeMap_processAlgorithmRemixData cu ci (prepare_data dep arr i)"
  have s: "departure_searches ?d = departure_searches (prepare_data dep arr i)"
          "arrival_searches ?d = arrival_searches (prepare_data dep arr i)"
    by (simp_all add: TimeMap_processAlgorithmRemixData_def Let_def)
  have "map s_id (searches_of (departure_searches ?d))
           = map f_id (take 10 (drop (i * 10) (features_of dep)))"
       "map s_id (searches_of (arrival_searches ?d))
           = map f_id (take 10 (drop (i * 10) (features_of arr)))"
    unfolding s by (simp_all add: prepare_data_def prepared_ids)
  with s show ?thesis
    using TimeMapAlgorithm by (intro exI [of _ ?d]) (simp add: batch_requests_def)
next
  case (TimeFilterAlgorithm locs)
  let ?p = "prepare_data dep arr i"
  let ?d = "?p\<lparr> departure_searches :=
                  map_option (map (remixed_departure (map lf_id locs))) (departure_searches ?p),
                arrival_searches :=
                  map_option (map (remixed_arrival (map lf_id locs))) (arrival_searches ?p),
                locations :=
                  Some (map location_of_feature locs
                          @ concat (map location_of_search (searches_of (departure_searches ?p)))
                          @ concat (map location_of_search (searches_of (arrival_searches ?p)))) \<rparr>"
  have "\<forall>s\<in>set (searches_of (departure_searches ?p)). s_coords s \<noteq> None"
       "\<forall>s\<in>set (searches_of (arrival_searches ?p)). s_coords s \<noteq> None"
    by (simp_all add: prepare_data_def loaded_searches_have_coords)
  from timefilter_remix_eq [OF this, of locs]
  have r: "TimeFilter_processAlgorithmRemixData locs ?p = Inr ?d" .
  have "map s_id (searches_of (departure_searches ?d)) = map s_id (searches_of (departure_searches ?p))"
       "map s_id (searches_of (arrival_searches ?d)) = map s_id (searches_of (arrival_searches ?p))"
    by (simp_all add: searches_of_def remixed_departure_def remixed_arrival_def
          split: option.split)
  then have "map s_id (searches_of (departure_searches ?d))
           = map f_id (take 10 (drop (i * 10) (features_of dep)))"
       "map s_id (searches_of (arrival_searches ?d))
           = map f_id (take 10 (drop (i * 10) (features_of arr)))"
    by (simp_all add: prepare_data_def prepared_ids)
  with r show ?thesis
    using TimeFilterAlgorithm by (intro exI [of _ ?d]) (simp add: batch_requests_def)
qed


text \<open>
  Claim C1. With the batch size 10 the loop visits exactly
  \<open>ceil (max Nd Na / 10)\<close> slices, in increasing order; the payload of slice \<open>i\<close> holds,
  for each side that is present, the searches built from the records at positions
  \<open>i * 10\<close> up to (not including) \<open>(i + 1) * 10\<close>, and a side that is absent has no key.
  Read in slice order the batches give back every record of a side exactly once and in
  input order. The operation hands at most one request per slice to the session, and
  exactly one per slice when it completes. The request of the cycle of slice \<open>i\<close> is the
  one that carries the remixed payload of slice \<open>i\<close>, whose searches are those of the
  slice (as they are for the time-map variant, with their coordinates replaced by location
  ids for the time-filter variant): the requests that the operation adds to the session are
  the requests of the slices \<open>0, 1, ...\<close> in this order, of all the slices when the
  operation completes and of the first few when it aborts.
\<close>

theorem batching_completeness:
  "length (slices dep arr)
     = nat \<lceil>real (max (feature_count dep) (feature_count arr)) / real slicing_size\<rceil>
   \<and> slices dep arr = [0 ..< (max (feature_count dep) (feature_count arr) + 9) div 10]
   \<and> departure_searches (prepare_data dep arr i)
       = map_option (\<lambda>fs. map (make_search DEPARTURE) (take 10 (drop (i * 10) fs))) dep
   \<and> arrival_searches (prepare_data dep arr i)
       = map_option (\<lambda>fs. map (make_search ARRIVAL) (take 10 (drop (i * 10) fs))) arr
   \<and> concat (map (\<lambda>j. searches_of (departure_searches (prepare_data dep arr j))) (slices dep arr))
       = map (make_search DEPARTURE) (features_of dep)
   \<and> concat (map (\<lambda>j. searches_of (arrival_searches (prepare_data dep arr j))) (slices dep arr))
       = map (make_search ARRIVAL) (features_of arr)
   \<and> length (requests (snd (processAlgorithm e alg dep arr st)))
       \<le> length (requests st) + length (slices dep arr)
   \<and> (\<forall>out st'. processAlgorithm e alg dep arr st = (Inr out, st')
        \<longrightarrow> length (requests st') = length (requests st) + length (slices dep arr))
   \<and> (\<exists>n. n \<le> length (slices dep arr)
        \<and> requests (snd (processAlgorithm e alg dep arr st))
            = requests st
                @ concat (map (batch_requests e alg (string_of_credential (fst (credentials e)))
                                 (string_of_credential (snd (credentials e))) dep arr)
                            (take n (slices dep arr))))
   \<and> (\<forall>out st'. processAlgorithm e alg dep arr st = (Inr out, st')
        \<longrightarrow> requests st'
              = requests st
                  @ concat (map (batch_requests e alg (string_of_credential (fst (credentials e)))
                                   (string_of_credential (snd (credentials e))) dep arr)
                              (slices dep arr)))
   \<and> (\<exists>d. processAlgorithmRemixData alg (prepare_data dep arr i) = Inr d
        \<and> batch_requests e alg APP_ID API_KEY dep arr i
            = [post_request alg (request_headers alg APP_ID API_KEY) (json_dumps e d)]
        \<and> (case alg of
              TimeMapAlgorithm cu ci \<Rightarrow>
                departure_searches d = departure_searches (prepare_data dep arr i)
                \<and> arrival_searches d = arrival_searches (prepare_data dep arr i)
            | TimeFilterAlgorithm locs \<Rightarrow>
                departure_searches d
                  = map_option (map (remixed_departure (map lf_id locs)))
                      (departure_searches (prepare_data dep arr i))
                \<and> arrival_searches d
                    = map_option (map (remixed_arrival (map lf_id locs)))
                        (arrival_searches (prepare_data dep arr i)))
        \<and> map s_id (searches_of (departure_searches d))
            = map f_id (take 10 (drop (i * 10) (features_of dep)))
        \<and> map s_id (searches_of (arrival_searches d))
            = map f_id (take 10 (drop (i * 10) (features_of arr))))"
proof -
  have 1: "length (slices dep arr)
     = nat \<lceil>real (max (feature_count dep) (feature_count arr)) / real slicing_size\<rceil>"
    by (simp add: slices_def slicing_count_def)
  have 2: "slices dep arr = [0 ..< (max (feature_count dep) (feature_count arr) + 9) div 10]"
    by (simp add: slices_def slicing_count_div)
  have 3: "departure_searches (prepare_data dep arr i)
       = map_option (\<lambda>fs. map (make_search DEPARTURE) (take 10 (drop (i * 10) fs))) dep"
    by (simp add: prepare_data_def load_searches_take_drop slicing_size_def)
  have 4: "arrival_searches (prepare_data dep arr i)
       = map_option (\<lambda>fs. map (make_search ARRIVAL) (take 10 (drop (i * 10) fs))) arr"
    by (simp add: prepare_data_def load_searches_take_drop slicing_size_def)
  have 5: "concat (map (\<lambda>j. searches_of (departure_searches (prepare_data dep arr j))) (slices dep arr))
       = map (make_search DEPARTURE) (features_of dep)"
    using concat_load_searches [OF slicing_count_covers(1) [of dep arr], of DEPARTURE]
    by (simp add: prepare_data_def slices_def)
  have 6: "concat (map (\<lambda>j. searches_of (arrival_searches (prepare_data dep arr j))) (slices dep arr))
       = map (make_search ARRIVAL) (features_of arr)"
    using concat_load_searches [OF slicing_count_covers(2) [of arr dep], of ARRIVAL]
    by (simp add: prepare_data_def slices_def)
  have 7: "length (requests (snd (processAlgorithm e alg dep arr st)))
       \<le> length (requests st) + length (slices dep arr)"
    using processAlgorithm_requests_le [of e alg dep arr st] by (simp add: slices_length)
  have 8: "\<forall>out st'. processAlgorithm e alg dep arr st = (Inr out, st')
        \<longrightarrow> length (requests st') = length (requests st) + length (slices dep arr)"
    using processAlgorithm_requests_success [of e alg dep arr st] by (simp add: slices_length)
  from processAlgorithm_requests_exact [of dep arr e alg st] obtain n where
    n: "n \<le> length (slices dep arr)"
       "requests (snd (processAlgorithm e alg dep arr st))
          = requests st
              @ concat (map (batch_requests e alg (string_of_credential (fst (credentials e)))
                               (string_of_credential (snd (credentials e))) dep arr)
                          (take n (slices dep arr)))"
       "(\<exists>out. fst (processAlgorithm e alg dep arr st) = Inr out) \<longrightarrow> n = length (slices dep arr)"
    by blast
  from n(1,2) have 9: "\<exists>n. n \<le> length (slices dep arr)
        \<and> requests (snd (processAlgorithm e alg dep arr st))
            = requests st
                @ concat (map (batch_requests e alg (string_of_credential (fst (credentials e)))
                                 (string_of_credential (snd (credentials e))) dep arr)
                            (take n (slices dep arr)))"
    by blast
  have 10: "\<forall>out st'. processAlgorithm e alg dep arr st = (Inr out, st')
        \<longrightarrow> requests st'
              = requests st
                  @ concat (map (batch_requests e alg (string_of_credential (fst (credentials e)))
                                   (string_of_credential (snd (credentials e))) dep arr)
                              (slices dep arr))"
  proof (intro allI impI)
    fix out st'
    assume r: "processAlgorithm e alg dep arr st = (Inr out, st')"
    then have "n = length (slices dep arr)"
      using n(3) by simp
    with n(2) r show "requests st'
              = requests st
                  @ concat (map (batch_requests e alg (string_of_credential (fst (credentials e)))
                                   (string_of_credential (snd (credentials e))) dep arr)
                              (slices dep arr))"
      by simp
  qed
  note 11 = batch_payload [of alg dep arr i e APP_ID API_KEY]
  show ?thesis
    by (intro conjI 1 2 3 4 5 6 7 8 9 10 11)
qed

theorem batching_completeness_witness:
  "fst (processAlgorithm (sample_env (\<lambda>n rq. Responds ok_response)) (TimeMapAlgorithm False False)
          (Some eleven_features) None (sample_state (sample_settings 0 10 False)))
     = Inr (TimeMapOutput
             \<lparr> sink = [\<lparr>tm_id = ''a'', tm_properties = ''{}'', tm_geometry = ''POLYGON EMPTY''\<rparr>,
                        \<lparr>tm_id = ''a'', tm_properties = ''{}'', tm_geometry = ''POLYGON EMPTY''\<rparr>],
               sink_union = [], sink_inter = [] \<rparr>)
   \<and> length (requests (snd (processAlgorithm (sample_env (\<lambda>n rq. Responds ok_response))
          (TimeMapAlgorithm False False) (Some eleven_features) None
          (sample_state (sample_settings 0 10 False)))))
       = length (requests (sample_state (sample_settings 0 10 False)))
           + length (slices (Some eleven_features) None)
   \<and> length (slices (Some eleven_features) None) = 2
   \<and> map rq_data (requests (snd (processAlgorithm
          ((sample_env (\<lambda>n rq. Responds ok_response))\<lparr>json_dumps := id_dumps\<rparr>)
          (TimeMapAlgorithm False False) (Some eleven_features) None
          (sample_state (sample_settings 0 10 False)))))
       = [''abcdefghij|'', ''k|'']"
proof -
  let ?e = "sample_env (\<lambda>n rq. Responds ok_response)"
  let ?ids = "(sample_env (\<lambda>n rq. Responds ok_response))\<lparr>json_dumps := id_dumps\<rparr>"
  let ?alg = "TimeMapAlgorithm False False"
  let ?st = "sample_state (sample_settings 0 10 False)"
  let ?run = "processAlgorithm ?e ?alg (Some eleven_features) None ?st"
  let ?runs = "processAlgorithm ?ids ?alg (Some eleven_features) None ?st"
  let ?out = "TimeMapOutput
             \<lparr> sink = [\<lparr>tm_id = ''a'', tm_properties = ''{}'', tm_geometry = ''POLYGON EMPTY''\<rparr>,
                        \<lparr>tm_id = ''a'', tm_properties = ''{}'', tm_geometry = ''POLYGON EMPTY''\<rparr>],
               sink_union = [], sink_inter = [] \<rparr>"
  have f: "fst ?run = Inr ?out"
    by code_simp
  then have "?run = (Inr ?out, snd ?run)"
    by (simp add: prod_eq_iff)
  with batching_completeness [of "Some eleven_features" None 0 ?e ?alg ?st]
  have a: "length (requests (snd ?run))
          = length (requests ?st) + length (slices (Some eleven_features) None)"
    by blast
  have b: "length (slices (Some eleven_features) None) = 2"
    by (simp add: slices_def slicing_count_def feature_count_def eleven_features_def slicing_size_def)
  have "fst ?runs = Inr ?out"
    by code_simp
  then have "?runs = (Inr ?out, snd ?runs)"
    by (simp add: prod_eq_iff)
  with batching_completeness [of "Some eleven_features" None 0 ?ids ?alg ?st]
  have "requests (snd ?runs)
          = requests ?st
              @ concat (map (batch_requests ?ids ?alg (string_of_credential (fst (credentials ?ids)))
                               (string_of_credential (snd (credentials ?ids)))
                               (Some eleven_features) None)
                          (slices (Some eleven_features) None))"
    by blast
  moreover have "map rq_data (requests ?st
              @ concat (map (batch_requests ?ids ?alg (string_of_credential (fst (credentials ?ids)))
                               (string_of_credential (snd (credentials ?ids)))
                               (Some eleven_features) None)
                          (slices (Some eleven_features) None)))
            = [''abcdefghij|'', ''k|'']"
    by code_simp
  ultimately have c: "map rq_data (requests (snd ?runs)) = [''abcdefghij|'', ''k|'']"
    by (simp only:)
  from f a b c show ?thesis
    by (intro conjI)
qed

section \<open>Correlating results with the input records\<close>

lemma tm_feature_of_geometry:
  "r_properties r = Some p \<Longrightarrow> r_shape r = Some g
     \<Longrightarrow> tm_feature_of r = [\<lparr> tm_id = r_search_id r, tm_properties = p, tm_geometry = g \<rparr>]"
  by (simp add: tm_feature_of_def)

lemma TimeMap_add_results_eq:
  assumes "\<forall>r\<in>set rs. r_shape r \<noteq> None \<and> r_properties r \<noteq> None"
  shows "TimeMap_add_results rs sinks
     = Inr \<lparr> sink = sink sinks @ concat (map tm_feature_of
                 [r\<leftarrow>rs. r_search_id r \<noteq> ''union_all'' \<and> r_search_id r \<noteq> ''intersection_all'']),
             sink_union = sink_union sinks @ concat (map tm_feature_of
                 [r\<leftarrow>rs. r_search_id r = ''union_all'']),
             sink_inter = sink_inter sinks @ concat (map tm_feature_of
                 [r\<leftarrow>rs. r_search_id r = ''intersection_all'']) \<rparr>"
  using assms
proof (induction rs arbitrary: sinks)
  case Nil
  show ?case by simp
next
  case (Cons r rs)
  from Cons.prems obtain p g where pg: "r_properties r = Some p" "r_shape r = Some g"
    by auto
  from Cons.prems have rest: "\<forall>r\<in>set rs. r_shape r \<noteq> None \<and> r_properties r \<noteq> None"
    by simp
  note f = tm_feature_of_geometry [OF pg]
  consider (u) "r_search_id r = ''union_all''"
    | (i) "r_search_id r \<noteq> ''union_all''" "r_search_id r = ''intersection_all''"
    | (n) "r_search_id r \<noteq> ''union_all''" "r_search_id r \<noteq> ''intersection_all''"
    by blast
  then show ?case
  proof cases
    case u
    then show ?thesis
      by (simp add: TimeMap_add_result_def pg Cons.IH [OF rest] f Let_def)
  next
    case i
    then show ?thesis
      by (simp add: TimeMap_add_result_def pg Cons.IH [OF rest] f Let_def)
  next
    case n
    then show ?thesis
      by (simp add: TimeMap_add_result_def pg Cons.IH [OF rest] f Let_def)
  qed
qed

lemma lookup_none_iff:
  "get_location_feature locs i = None \<longleftrightarrow> i \<notin> lf_id ` set locs"
  unfolding get_location_feature_def find_None_iff by blast

lemma lookup_unique:
  assumes "f \<in> set locs" and "lf_id f = i" and "\<forall>g\<in>set locs. lf_id g = i \<longrightarrow> g = f"
  shows "get_location_feature locs i = Some f"
  using assms(1,3)
proof (induction locs)
  case Nil
  then show ?case by simp
next
  case (Cons g locs)
  show ?case
  proof (cases "lf_id g = i")
    case True
    with Cons.prems have "g = f" by simp
    with True show ?thesis by (simp add: get_location_feature_def)
  next
    case False
    with Cons.prems assms(2) have "f \<in> set locs" by auto
    moreover from Cons.prems have "\<forall>g\<in>set locs. lf_id g = i \<longrightarrow> g = f" by simp
    ultimately have "get_location_feature locs i = Some f" by (rule Cons.IH)
    with False show ?thesis by (simp add: get_location_feature_def)
  qed
qed

lemma add_locations_found:
  "\<forall>l\<in>set ls. get_location_feature locs (lr_id l) \<noteq> None
     \<Longrightarrow> \<exists>fs. add_locations locs sid ls snk = Inr (snk @ fs)
              \<and> map Some fs = map (reached_feature locs sid) ls"
proof (induction ls arbitrary: snk)
  case Nil
  show ?case by simp
next
  case (Cons l ls)
  from Cons.prems obtain b where b: "get_location_feature locs (lr_id l) = Some b"
    by auto
  let ?f = "\<lparr> rf_geometry = (lf_x b, lf_y b), rf_attributes = lf_attributes b,
              rf_search_id = sid, rf_properties = lr_properties l \<rparr>"
  from Cons.prems have "\<forall>l\<in>set ls. get_location_feature locs (lr_id l) \<noteq> None"
    by simp
  from Cons.IH [OF this, of "snk @ [?f]"] obtain fs where
    "add_locations locs sid ls (snk @ [?f]) = Inr ((snk @ [?f]) @ fs)"
    "map Some fs = map (reached_feature locs sid) ls"
    by blast
  then have "add_locations locs sid (l # ls) snk = Inr (snk @ (?f # fs))
           \<and> map Some (?f # fs) = map (reached_feature locs sid) (l # ls)"
    by (simp add: b reached_feature_def)
  then show ?case by blast
qed

lemma add_locations_missing:
  "l \<in> set ls \<Longrightarrow> get_location_feature locs (lr_id l) = None
     \<Longrightarrow> add_locations locs sid ls snk = Inl AssertionError"
proof (induction ls arbitrary: snk)
  case Nil
  then show ?case by simp
next
  case (Cons l' ls)
  then show ?case
    by (cases "get_location_feature locs (lr_id l')") auto
qed

lemma add_unreachable_found:
  "\<forall>i\<in>set us. get_location_feature locs i \<noteq> None
     \<Longrightarrow> \<exists>fs. add_unreachable locs sid us snk = Inr (snk @ fs)
              \<and> map Some fs = map (unreached_feature locs sid) us"
proof (induction us arbitrary: snk)
  case Nil
  show ?case by simp
next
  case (Cons u us)
  from Cons.prems obtain b where b: "get_location_feature locs u = Some b"
    by auto
  let ?f = "\<lparr> uf_geometry = (lf_x b, lf_y b), uf_attributes = lf_attributes b,
              uf_search_id = sid \<rparr>"
  from Cons.prems have "\<forall>i\<in>set us. get_location_feature locs i \<noteq> None"
    by simp
  from Cons.IH [OF this, of "snk @ [?f]"] obtain fs where
    "add_unreachable locs sid us (snk @ [?f]) = Inr ((snk @ [?f]) @ fs)"
    "map Some fs = map (unreached_feature locs sid) us"
    by blast
  then have "add_unreachable locs sid (u # us) snk = Inr (snk @ (?f # fs))
           \<and> map Some (?f # fs) = map (unreached_feature locs sid) (u # us)"
    by (simp add: b unreached_feature_def)
  then show ?case by blast
qed

lemma add_unreachable_missing:
  "i \<in> set us \<Longrightarrow> get_location_feature locs i = None
     \<Longrightarrow> add_unreachable locs sid us snk = Inl AssertionError"
proof (induction us arbitrary: snk)
  case Nil
  then show ?case by simp
next
  case (Cons u us)
  then show ?case
    by (cases "get_location_feature locs u") auto
qed


lemma TimeFilter_add_results_found:
  assumes "\<forall>r\<in>set rs. r_locations r \<noteq> None \<and> r_unreachable r \<noteq> None"
      and "\<forall>r\<in>set rs. \<forall>i\<in>set (referenced_ids r). get_location_feature locs i \<noteq> None"
  shows "\<exists>rf uf. TimeFilter_add_results locs rs sinks
             = Inr \<lparr> results_sink = results_sink sinks @ rf,
                     unreachable_sink = unreachable_sink sinks @ uf \<rparr>
         \<and> map Some rf
             = concat (map (\<lambda>r. map (reached_feature locs (r_search_id r)) (location_entries r)) rs)
         \<and> map Some uf
             = concat (map (\<lambda>r. map (unreached_feature locs (r_search_id r)) (unreachable_ids r)) rs)"
  using assms
proof (induction rs arbitrary: sinks)
  case Nil
  show ?case by simp
next
  case (Cons r rs)
  from Cons.prems(1) obtain ls us where
    lu: "r_locations r = Some ls" "r_unreachable r = Some us"
    by auto
  then have ent: "location_entries r = ls" "unreachable_ids r = us"
    by (simp_all add: location_entries_def unreachable_ids_def)
  from Cons.prems(2) have
    fl: "\<forall>l\<in>set ls. get_location_feature locs (lr_id l) \<noteq> None"
    and fu: "\<forall>i\<in>set us. get_location_feature locs i \<noteq> None"
    by (simp_all add: referenced_ids_def ent)
  from add_locations_found [OF fl, of "r_search_id r" "results_sink sinks"] obtain rf1 where
    rf1: "add_locations locs (r_search_id r) ls (results_sink sinks) = Inr (results_sink sinks @ rf1)"
         "map Some rf1 = map (reached_feature locs (r_search_id r)) ls"
    by blast
  from add_unreachable_found [OF fu, of "r_search_id r" "unreachable_sink sinks"] obtain uf1 where
    uf1: "add_unreachable locs (r_search_id r) us (unreachable_sink sinks)
            = Inr (unreachable_sink sinks @ uf1)"
         "map Some uf1 = map (unreached_feature locs (r_search_id r)) us"
    by blast
  let ?sinks1 = "\<lparr> results_sink = results_sink sinks @ rf1,
                  unreachable_sink = unreachable_sink sinks @ uf1 \<rparr>"
  from Cons.prems have
    "\<forall>r\<in>set rs. r_locations r \<noteq> None \<and> r_unreachable r \<noteq> None"
    "\<forall>r\<in>set rs. \<forall>i\<in>set (referenced_ids r). get_location_feature locs i \<noteq> None"
    by simp_all
  from Cons.IH [OF this, of ?sinks1] obtain rf uf where
    ih: "TimeFilter_add_results locs rs ?sinks1
           = Inr \<lparr> results_sink = results_sink ?sinks1 @ rf,
                   unreachable_sink = unreachable_sink ?sinks1 @ uf \<rparr>"
        "map Some rf
           = concat (map (\<lambda>r. map (reached_feature locs (r_search_id r)) (location_entries r)) rs)"
        "map Some uf
           = concat (map (\<lambda>r. map (unreached_feature locs (r_search_id r)) (unreachable_ids r)) rs)"
    by blast
  have "TimeFilter_add_results locs (r # rs) sinks
          = Inr \<lparr> results_sink = results_sink sinks @ (rf1 @ rf),
                  unreachable_sink = unreachable_sink sinks @ (uf1 @ uf) \<rparr>"
    by (simp add: lu rf1(1) uf1(1) ih(1))
  moreover have "map Some (rf1 @ rf)
           = concat (map (\<lambda>r. map (reached_feature locs (r_search_id r)) (location_entries r)) (r # rs))"
    by (simp add: rf1(2) ih(2) ent)
  moreover have "map Some (uf1 @ uf)
           = concat (map (\<lambda>r. map (unreached_feature locs (r_search_id r)) (unreachable_ids r)) (r # rs))"
    by (simp add: uf1(2) ih(3) ent)
  ultimately show ?case by blast
qed

lemma TimeFilter_add_results_missing:
  assumes "\<forall>r\<in>set rs. r_locations r \<noteq> None \<and> r_unreachable r \<noteq> None"
      and "\<exists>r\<in>set rs. \<exists>i\<in>set (referenced_ids r). get_location_feature locs i = None"
  shows "TimeFilter_add_results locs rs sinks = Inl AssertionError"
  using assms
proof (induction rs arbitrary: sinks)
  case Nil
  then show ?case by simp
next
  case (Cons r rs)
  from Cons.prems(1) obtain ls us where
    lu: "r_locations r = Some ls" "r_unreachable r = Some us"
    by auto
  then have ent: "location_entries r = ls" "unreachable_ids r = us"
    by (simp_all add: location_entries_def unreachable_ids_def)
  from Cons.prems(1) have rest: "\<forall>r\<in>set rs. r_locations r \<noteq> None \<and> r_unreachable r \<noteq> None"
    by simp
  show ?case
  proof (cases "\<exists>l\<in>set ls. get_location_feature locs (lr_id l) = None")
    case True
    then obtain l where "l \<in> set ls" "get_location_feature locs (lr_id l) = None"
      by blast
    from add_locations_missing [OF this] show ?thesis
      by (simp add: lu)
  next
    case False
    then have fl: "\<forall>l\<in>set ls. get_location_feature locs (lr_id l) \<noteq> None"
      by simp
    from add_locations_found [OF fl, of "r_search_id r" "results_sink sinks"] obtain rf1 where
      rf1: "add_locations locs (r_search_id r) ls (results_sink sinks) = Inr (results_sink sinks @ rf1)"
      by blast
    show ?thesis
    proof (cases "\<exists>i\<in>set us. get_location_feature locs i = None")
      case True
      then obtain i where "i \<in> set us" "get_location_feature locs i = None"
        by blast
      from add_unreachable_missing [OF this] show ?thesis
        by (simp add: lu rf1)
    next
      case False
      then have fu: "\<forall>i\<in>set us. get_location_feature locs i \<noteq> None"
        by simp
      from add_unreachable_found [OF fu, of "r_search_id r" "unreachable_sink sinks"] obtain uf1 where
        uf1: "add_unreachable locs (r_search_id r) us (unreachable_sink sinks)
                = Inr (unreachable_sink sinks @ uf1)"
        by blast
      from fl fu have "\<forall>i\<in>set (referenced_ids r). get_location_feature locs i \<noteq> None"
        by (auto simp: referenced_ids_def ent)
      with Cons.prems(2) have
        "\<exists>r\<in>set rs. \<exists>i\<in>set (referenced_ids r). get_location_feature locs i = None"
        by auto
      from Cons.IH [OF rest this] show ?thesis
        by (simp add: lu rf1 uf1)
    qed
  qed
qed

text \<open>
  Claim C8. For a result list whose entries all carry a geometry, the time-map output puts
  every result with the search id \<open>union_all\<close> into the union sink, every result with
  the id \<open>intersection_all\<close> into the intersection sink and every other result into the
  normal sink, each sink in result order. For a result list whose entries all have the
  locations shape, the time-filter output joins every per-location entry and every
  unreachable id to the record the id lookup returns, when every referenced id is found;
  when some referenced id is not found the assertion fails, which no handler catches. The
  lookup finds nothing exactly when no record of the locations layer has the id, and it
  returns the record when exactly one record has it.
\<close>

theorem result_correlation:
  "((\<forall>r\<in>set results. r_shape r \<noteq> None \<and> r_properties r \<noteq> None) \<longrightarrow>
      TimeMap_processAlgorithmOutput results
        = Inr \<lparr> sink = concat (map tm_feature_of
                    [r\<leftarrow>results. r_search_id r \<noteq> ''union_all''
                                   \<and> r_search_id r \<noteq> ''intersection_all'']),
                sink_union = concat (map tm_feature_of
                    [r\<leftarrow>results. r_search_id r = ''union_all'']),
                sink_inter = concat (map tm_feature_of
                    [r\<leftarrow>results. r_search_id r = ''intersection_all'']) \<rparr>)
   \<and> ((\<forall>r\<in>set results. r_locations r \<noteq> None \<and> r_unreachable r \<noteq> None) \<longrightarrow>
        ((\<forall>r\<in>set results. \<forall>i\<in>set (referenced_ids r). get_location_feature locs i \<noteq> None) \<longrightarrow>
           (\<exists>sinks. TimeFilter_processAlgorithmOutput locs results = Inr sinks
              \<and> map Some (results_sink sinks)
                  = concat (map (\<lambda>r. map (reached_feature locs (r_search_id r)) (location_entries r))
                              results)
              \<and> map Some (unreachable_sink sinks)
                  = concat (map (\<lambda>r. map (unreached_feature locs (r_search_id r)) (unreachable_ids r))
                              results)))
      \<and> ((\<exists>r\<in>set results. \<exists>i\<in>set (referenced_ids r). get_location_feature locs i = None) \<longrightarrow>
           TimeFilter_processAlgorithmOutput locs results = Inl AssertionError))
   \<and> (get_location_feature locs i = None \<longleftrightarrow> i \<notin> lf_id ` set locs)
   \<and> (f \<in> set locs \<and> lf_id f = i \<and> (\<forall>g\<in>set locs. lf_id g = i \<longrightarrow> g = f)
        \<longrightarrow> get_location_feature locs i = Some f)"
proof (intro conjI impI)
  assume "\<forall>r\<in>set results. r_shape r \<noteq> None \<and> r_properties r \<noteq> None"
  from TimeMap_add_results_eq [OF this, of "\<lparr> sink = [], sink_union = [], sink_inter = [] \<rparr>"]
  show "TimeMap_processAlgorithmOutput results
        = Inr \<lparr> sink = concat (map tm_feature_of
                    [r\<leftarrow>results. r_search_id r \<noteq> ''union_all''
                                   \<and> r_search_id r \<noteq> ''intersection_all'']),
                sink_union = concat (map tm_feature_of
                    [r\<leftarrow>results. r_search_id r = ''union_all'']),
                sink_inter = concat (map tm_feature_of
                    [r\<leftarrow>results. r_search_id r = ''intersection_all'']) \<rparr>"
    by (simp add: TimeMap_processAlgorithmOutput_def)
next
  assume h: "\<forall>r\<in>set results. r_locations r \<noteq> None \<and> r_unreachable r \<noteq> None"
    and f: "\<forall>r\<in>set results. \<forall>i\<in>set (referenced_ids r). get_location_feature locs i \<noteq> None"
  from TimeFilter_add_results_found
         [OF h f, of "\<lparr> results_sink = [], unreachable_sink = [] \<rparr>"]
  show "\<exists>sinks. TimeFilter_processAlgorithmOutput locs results = Inr sinks
              \<and> map Some (results_sink sinks)
                  = concat (map (\<lambda>r. map (reached_feature locs (r_search_id r)) (location_entries r))
                              results)
              \<and> map Some (unreachable_sink sinks)
                  = concat (map (\<lambda>r. map (unreached_feature locs (r_search_id r)) (unreachable_ids r))
                              results)"
    by (auto simp: TimeFilter_processAlgorithmOutput_def)
next
  assume h: "\<forall>r\<in>set results. r_locations r \<noteq> None \<and> r_unreachable r \<noteq> None"
    and m: "\<exists>r\<in>set results. \<exists>i\<in>set (referenced_ids r). get_location_feature locs i = None"
  from TimeFilter_add_results_missing [OF h m]
  show "TimeFilter_processAlgorithmOutput locs results = Inl AssertionError"
    by (simp add: TimeFilter_processAlgorithmOutput_def)
next
  show "get_location_feature locs i = None \<longleftrightarrow> i \<notin> lf_id ` set locs"
    by (rule lookup_none_iff)
next
  assume "f \<in> set locs \<and> lf_id f = i \<and> (\<forall>g\<in>set locs. lf_id g = i \<longrightarrow> g = f)"
  then show "get_location_feature locs i = Some f"
    using lookup_unique by blast
qed


theorem result_correlation_witness:
  "TimeMap_processAlgorithmOutput
     [sample_result ''a'', sample_result ''union_all'', sample_result ''intersection_all'']
     = Inr \<lparr> sink = [\<lparr>tm_id = ''a'', tm_properties = ''{}'', tm_geometry = ''POLYGON EMPTY''\<rparr>],
             sink_union =
               [\<lparr>tm_id = ''union_all'', tm_properties = ''{}'', tm_geometry = ''POLYGON EMPTY''\<rparr>],
             sink_inter =
               [\<lparr>tm_id = ''intersection_all'', tm_properties = ''{}'',
                 tm_geometry = ''POLYGON EMPTY''\<rparr>] \<rparr>
   \<and> (\<exists>sinks. TimeFilter_processAlgorithmOutput [sample_location ''x'', sample_location ''y'']
                 [sample_filter_result] = Inr sinks
         \<and> map Some (results_sink sinks)
             = [Some \<lparr> rf_geometry = (1, 2), rf_attributes = [QStr ''x''],
                       rf_search_id = ''a'', rf_properties = ''{}'' \<rparr>]
         \<and> map Some (unreachable_sink sinks)
             = [Some \<lparr> uf_geometry = (1, 2), uf_attributes = [QStr ''y''],
                       uf_search_id = ''a'' \<rparr>])
   \<and> TimeFilter_processAlgorithmOutput [sample_location ''x''] [sample_filter_result]
       = Inl AssertionError
   \<and> get_location_feature [sample_location ''x'', sample_location ''y''] ''y''
       = Some (sample_location ''y'')"
proof -
  let ?rs = "[sample_result ''a'', sample_result ''union_all'', sample_result ''intersection_all'']"
  let ?xy = "[sample_location ''x'', sample_location ''y'']"
  let ?x = "[sample_location ''x'']"
  let ?R = "[sample_filter_result]"
  note T1 = result_correlation [of ?rs ?xy "''y''" "sample_location ''y''"]
  note T2 = result_correlation [of ?R ?xy "''y''" "sample_location ''y''"]
  note T3 = result_correlation [of ?R ?x "''y''" "sample_location ''y''"]
  have hA: "\<forall>r\<in>set ?rs. r_shape r \<noteq> None \<and> r_properties r \<noteq> None"
    by code_simp
  have hB: "\<forall>r\<in>set ?R. r_locations r \<noteq> None \<and> r_unreachable r \<noteq> None"
    by code_simp
  have hF: "\<forall>r\<in>set ?R. \<forall>i\<in>set (referenced_ids r). get_location_feature ?xy i \<noteq> None"
    by code_simp
  have hM: "\<exists>r\<in>set ?R. \<exists>i\<in>set (referenced_ids r). get_location_feature ?x i = None"
    by code_simp
  have hU: "sample_location ''y'' \<in> set ?xy \<and> lf_id (sample_location ''y'') = ''y''
              \<and> (\<forall>g\<in>set ?xy. lf_id g = ''y'' \<longrightarrow> g = sample_location ''y'')"
    by code_simp
  have A: "TimeMap_processAlgorithmOutput ?rs
        = Inr \<lparr> sink = concat (map tm_feature_of
                    [r\<leftarrow>?rs. r_search_id r \<noteq> ''union_all''
                               \<and> r_search_id r \<noteq> ''intersection_all'']),
                sink_union = concat (map tm_feature_of [r\<leftarrow>?rs. r_search_id r = ''union_all'']),
                sink_inter = concat (map tm_feature_of
                    [r\<leftarrow>?rs. r_search_id r = ''intersection_all'']) \<rparr>"
    by (rule mp [OF conjunct1 [OF T1] hA])
  have A1: "concat (map tm_feature_of
                    [r\<leftarrow>?rs. r_search_id r \<noteq> ''union_all''
                               \<and> r_search_id r \<noteq> ''intersection_all''])
              = [\<lparr>tm_id = ''a'', tm_properties = ''{}'', tm_geometry = ''POLYGON EMPTY''\<rparr>]"
    by code_simp
  have A2: "concat (map tm_feature_of [r\<leftarrow>?rs. r_search_id r = ''union_all''])
              = [\<lparr>tm_id = ''union_all'', tm_properties = ''{}'', tm_geometry = ''POLYGON EMPTY''\<rparr>]"
    by code_simp
  have A3: "concat (map tm_feature_of [r\<leftarrow>?rs. r_search_id r = ''intersection_all''])
              = [\<lparr>tm_id = ''intersection_all'', tm_properties = ''{}'',
                  tm_geometry = ''POLYGON EMPTY''\<rparr>]"
    by code_simp
  have B: "\<exists>sinks. TimeFilter_processAlgorithmOutput ?xy ?R = Inr sinks
              \<and> map Some (results_sink sinks)
                  = concat (map (\<lambda>r. map (reached_feature ?xy (r_search_id r)) (location_entries r)) ?R)
              \<and> map Some (unreachable_sink sinks)
                  = concat (map (\<lambda>r. map (unreached_feature ?xy (r_search_id r)) (unreachable_ids r)) ?R)"
    by (rule mp [OF conjunct1 [OF mp [OF conjunct1 [OF conjunct2 [OF T2]] hB]] hF])
  have B1: "concat (map (\<lambda>r. map (reached_feature ?xy (r_search_id r)) (location_entries r)) ?R)
              = [Some \<lparr> rf_geometry = (1, 2), rf_attributes = [QStr ''x''],
                        rf_search_id = ''a'', rf_properties = ''{}'' \<rparr>]"
    by code_simp
  have B2: "concat (map (\<lambda>r. map (unreached_feature ?xy (r_search_id r)) (unreachable_ids r)) ?R)
              = [Some \<lparr> uf_geometry = (1, 2), uf_attributes = [QStr ''y''],
                        uf_search_id = ''a'' \<rparr>]"
    by code_simp
  have C: "TimeFilter_processAlgorithmOutput ?x ?R = Inl AssertionError"
    by (rule mp [OF conjunct2 [OF mp [OF conjunct1 [OF conjunct2 [OF T3]] hB]] hM])
  have D: "get_location_feature ?xy ''y'' = Some (sample_location ''y'')"
    by (rule mp [OF conjunct2 [OF conjunct2 [OF conjunct2 [OF T1]]] hU])
  from A B C D show ?thesis
    unfolding A1 A2 A3 B1 B2 by (intro conjI)
qed


section \<open>Error reports\<close>

lemma sublist_join:
  "x \<in> set xs \<Longrightarrow> sublist x (join sep xs)"
proof (induction sep xs rule: join.induct)
  case (1 sep)
  then show ?case by simp
next
  case (2 sep y)
  then show ?case by simp
next
  case (3 sep y z zs)
  show ?case
  proof (cases "x = y")
    case True
    then show ?thesis by simp
  next
    case False
    with 3 have "sublist x (join sep (z # zs))" by simp
    then have "sublist x ((y @ sep) @ join sep (z # zs))"
      by (rule sublist_order.order.trans) (rule sublist_append_leftI)
    then show ?thesis by simp
  qed
qed

lemma sublist_nice_info:
  assumes "(k, v) \<in> set info"
  shows "sublist ([CHR 0x09] @ k @ '':'' @ [CHR 0x09] @ v) (nice_info info)"
proof -
  from assms have "[CHR 0x09] @ k @ '':'' @ [CHR 0x09] @ v
                     \<in> set (map (\<lambda>(k, v). [CHR 0x09] @ k @ '':'' @ [CHR 0x09] @ v) info)"
    by force
  then show ?thesis
    unfolding nice_info_def by (rule sublist_join)
qed

lemma api_error_message_complete:
  assumes "b_error_code b = Some X" "b_description b = Some Y"
      and "b_documentation_link b = Some Z" "b_additional_info b = Some info"
  shows "\<exists>m. api_error_message intro b = Inr m
            \<and> sublist X m \<and> sublist Y m \<and> sublist Z m
            \<and> (\<forall>(k, v)\<in>set info. sublist ([CHR 0x09] @ k @ '':'' @ [CHR 0x09] @ v) m)"
proof -
  define m where
    "m = intro @ ''\<newline>Error code : '' @ X @ ''\<newline>Description : '' @ Y
           @ ''\<newline>See : '' @ Z @ ''\<newline>Addtionnal info :\<newline>'' @ nice_info info"
  have eq: "api_error_message intro b = Inr m"
    by (simp add: api_error_message_def assms m_def)
  have "m = (intro @ ''\<newline>Error code : '') @ X
              @ (''\<newline>Description : '' @ Y @ ''\<newline>See : '' @ Z
                   @ ''\<newline>Addtionnal info :\<newline>'' @ nice_info info)"
    by (simp add: m_def)
  then have x: "sublist X m"
    by (metis sublist_appendI)
  have "m = (intro @ ''\<newline>Error code : '' @ X @ ''\<newline>Description : '') @ Y
              @ (''\<newline>See : '' @ Z @ ''\<newline>Addtionnal info :\<newline>'' @ nice_info info)"
    by (simp add: m_def)
  then have y: "sublist Y m"
    by (metis sublist_appendI)
  have "m = (intro @ ''\<newline>Error code : '' @ X @ ''\<newline>Description : '' @ Y
               @ ''\<newline>See : '') @ Z
              @ (''\<newline>Addtionnal info :\<newline>'' @ nice_info info)"
    by (simp add: m_def)
  then have z: "sublist Z m"
    by (metis sublist_appendI)
  have mi: "m = (intro @ ''\<newline>Error code : '' @ X @ ''\<newline>Description : '' @ Y
               @ ''\<newline>See : '' @ Z @ ''\<newline>Addtionnal info :\<newline>'') @ nice_info info"
    by (simp add: m_def)
  have i: "\<forall>(k, v)\<in>set info. sublist ([CHR 0x09] @ k @ '':'' @ [CHR 0x09] @ v) m"
  proof (intro ballI, clarify)
    fix k v assume "(k, v) \<in> set info"
    then have "sublist ([CHR 0x09] @ k @ '':'' @ [CHR 0x09] @ v) (nice_info info)"
      by (rule sublist_nice_info)
    also have "sublist (nice_info info) m"
      unfolding mi by (rule sublist_append_leftI)
    finally show "sublist ([CHR 0x09] @ k @ '':'' @ [CHR 0x09] @ v) m" .
  qed
  from eq x y z i show ?thesis by blast
qed

lemma base_log_request_frame:
  "settings (base_log_request e self jd ps st) = settings st"
  "requests (base_log_request e self jd ps st) = requests st"
  "feedback (base_log_request e self jd ps st) = feedback st"
  by (simp_all add: base_log_request_def logMessage_def Let_def)


lemma processAlgorithmMakeRequest_cases:
  assumes "truthy (fst (credentials e))" "truthy (snd (credentials e))"
  obtains st4 where
    "settings st4 = settings st"
    "requests st4 = requests st @ [base_request e self jd ps (settings st)]"
    "processAlgorithmMakeRequest e self jd ps st =
       (case send e (length (requests st)) (base_request e self jd ps (settings st)) of
          Raises x \<Rightarrow> (Inl (RequestException x), st4)
        | Responds r \<Rightarrow>
            (case json_loads e (response_text r) of
               None \<Rightarrow>
                 (Inl (QgsProcessingException ''Could not decode response''),
                  logMessage (Exception ValueError)
                    (reportError ''Could not decode response. See log for more details.'' True st4))
             | Some b \<Rightarrow>
                 if raises_for_status r then
                   (case api_error_message ''Received error from the API.'' b of
                      Inl k \<Rightarrow> (Inl k, st4)
                    | Inr m \<Rightarrow>
                        (Inl (QgsProcessingException
                                (''Got error '' @ string_of_nat (status_code r) @ '' from API'')),
                         logMessage (Exception (HTTPError (status_code r)))
                           (reportError ''See log for more details.'' True
                             (reportError m True st4))))
                 else
                   (Inr b,
                    if get_log_calls (settings st) then
                      log_response r
                        (if from_cache r then pushDebugInfo ''Got response from cache...'' st4
                         else increment_count
                                (pushDebugInfo ''Got response from API endpoint...'' st4))
                    else
                      (if from_cache r then pushDebugInfo ''Got response from cache...'' st4
                       else increment_count
                              (pushDebugInfo ''Got response from API endpoint...'' st4)))))"
proof -
  define st1 where "st1 = pushDebugInfo ''Making request to API endpoint...'' st"
  define st2 where
    "st2 = (if get_log_calls (settings st1) then base_log_request e self jd ps st1 else st1)"
  define st3 where
    "st3 = (if get_disable_https (settings st2) then
              pushInfo ''Warning ! HTTPS certificate verification is disabled. This means all data sent to the API can potentially be intercepted by an attacker.'' st2
            else st2)"
  define st4 where
    "st4 = st3\<lparr>requests := requests st3 @ [base_request e self jd ps (settings st3)]\<rparr>"
  have f1: "settings st1 = settings st" "requests st1 = requests st"
    by (simp_all add: st1_def pushDebugInfo_def)
  have f2: "settings st2 = settings st" "requests st2 = requests st"
    by (simp_all add: st2_def base_log_request_frame f1)
  have f3: "settings st3 = settings st" "requests st3 = requests st"
    by (simp_all add: st3_def pushInfo_def f2)
  have a: "settings st4 = settings st"
    by (simp add: st4_def f3)
  have b: "requests st4 = requests st @ [base_request e self jd ps (settings st)]"
    by (simp add: st4_def f3)
  have c: "processAlgorithmMakeRequest e self jd ps st =
       (case send e (length (requests st3)) (base_request e self jd ps (settings st3)) of
          Raises x \<Rightarrow> (Inl (RequestException x), st4)
        | Responds r \<Rightarrow>
            (case json_loads e (response_text r) of
               None \<Rightarrow>
                 (Inl (QgsProcessingException ''Could not decode response''),
                  logMessage (Exception ValueError)
                    (reportError ''Could not decode response. See log for more details.'' True st4))
             | Some b \<Rightarrow>
                 if raises_for_status r then
                   (case api_error_message ''Received error from the API.'' b of
                      Inl k \<Rightarrow> (Inl k, st4)
                    | Inr m \<Rightarrow>
                        (Inl (QgsProcessingException
                                (''Got error '' @ string_of_nat (status_code r) @ '' from API'')),
                         logMessage (Exception (HTTPError (status_code r)))
                           (reportError ''See log for more details.'' True
                             (reportError m True st4))))
                 else
                   (Inr b,
                    if get_log_calls (settings st1) then
                      log_response r
                        (if from_cache r then pushDebugInfo ''Got response from cache...'' st4
                         else increment_count
                                (pushDebugInfo ''Got response from API endpoint...'' st4))
                    else
                      (if from_cache r then pushDebugInfo ''Got response from cache...'' st4
                       else increment_count
                              (pushDebugInfo ''Got response from API endpoint...'' st4)))))"
    unfolding processAlgorithmMakeRequest_def Let_def st4_def st3_def st2_def st1_def
    by (simp only: assms simp_thms if_False)
  show thesis
    by (rule that [OF a b]) (use c in \<open>simp only: f1 f3\<close>)
qed


lemma make_request_http_error:
  assumes "send e (length (requests st)) rq = Responds r"
      and "raises_for_status r"
      and "json_loads e (response_text r) = Some b"
      and "api_error_message ''Recieved error from the API.'' b = Inr m"
  shows "\<exists>st'. make_request e rq p st
                 = (Inl (QgsProcessingException
                           (''Got error '' @ string_of_nat (status_code r) @ '' form API'')), st')
            \<and> ReportError m True \<in> set (feedback st')
            \<and> requests st' = requests st @ [rq]"
proof -
  obtain c st' where run: "make_request e rq p st = (c, st')"
    by (cases "make_request e rq p st")
  from make_request_requests_eq [OF run] have r: "requests st' = requests st @ [rq]" .
  from run assms have c: "c = Inl (QgsProcessingException
                           (''Got error '' @ string_of_nat (status_code r) @ '' form API''))"
    unfolding make_request_def by (auto simp: Let_def)
  from run assms have "ReportError m True \<in> set (feedback st')"
    unfolding make_request_def by (auto simp: Let_def logMessage_def reportError_def)
  with run c r show ?thesis by blast
qed

text \<open>
  Claim C9. When the session answers with an error status and the body decodes to the
  structured error object with the fields \<open>error_code = X\<close>, \<open>description = Y\<close>,
  \<open>documentation_link = Z\<close> and \<open>additional_info\<close>, the request helper of the newer
  module reports one fatal error whose text contains \<open>X\<close>, \<open>Y\<close>, \<open>Z\<close> and, for each
  entry of the additional info, the line made of a tab, the key, a colon, a tab and the
  value; it then raises \<open>Got error <status> from API\<close>, having handed exactly one
  request to the session. The request loop of the older module does the same (with its
  own wording of the exception), so the request is not sent again.
\<close>

theorem api_error_reported:
  assumes "raises_for_status r"
      and "json_loads e (response_text r) = Some b"
      and "b_error_code b = Some X" "b_description b = Some Y"
      and "b_documentation_link b = Some Z" "b_additional_info b = Some info"
  shows "(truthy (fst (credentials e)) \<and> truthy (snd (credentials e))
          \<and> send e (length (requests st)) (base_request e self jd ps (settings st)) = Responds r
          \<longrightarrow> (\<exists>m st'. processAlgorithmMakeRequest e self jd ps st
                          = (Inl (QgsProcessingException
                                    (''Got error '' @ string_of_nat (status_code r) @ '' from API'')),
                             st')
                \<and> ReportError m True \<in> set (feedback st')
                \<and> sublist X m \<and> sublist Y m \<and> sublist Z m
                \<and> (\<forall>(k, v)\<in>set info. sublist ([CHR 0x09] @ k @ '':'' @ [CHR 0x09] @ v) m)
                \<and> requests st' = requests st @ [base_request e self jd ps (settings st)]))
       \<and> (send e (length (requests st)) rq = Responds r
          \<longrightarrow> (\<exists>m st'. make_request e rq p st
                          = (Inl (QgsProcessingException
                                    (''Got error '' @ string_of_nat (status_code r) @ '' form API'')),
                             st')
                \<and> ReportError m True \<in> set (feedback st')
                \<and> sublist X m \<and> sublist Y m \<and> sublist Z m
                \<and> (\<forall>(k, v)\<in>set info. sublist ([CHR 0x09] @ k @ '':'' @ [CHR 0x09] @ v) m)
                \<and> requests st' = requests st @ [rq]))"
proof (intro conjI impI)
  assume h: "truthy (fst (credentials e)) \<and> truthy (snd (credentials e))
          \<and> send e (length (requests st)) (base_request e self jd ps (settings st)) = Responds r"
  from api_error_message_complete [OF assms(3-6), of "''Received error from the API.''"]
  obtain m where m: "api_error_message ''Received error from the API.'' b = Inr m"
    and sub: "sublist X m" "sublist Y m" "sublist Z m"
             "\<forall>(k, v)\<in>set info. sublist ([CHR 0x09] @ k @ '':'' @ [CHR 0x09] @ v) m"
    by blast
  from h have c: "truthy (fst (credentials e))" "truthy (snd (credentials e))"
    and s: "send e (length (requests st)) (base_request e self jd ps (settings st)) = Responds r"
    by simp_all
  show "\<exists>m st'. processAlgorithmMakeRequest e self jd ps st
                          = (Inl (QgsProcessingException
                                    (''Got error '' @ string_of_nat (status_code r) @ '' from API'')),
                             st')
                \<and> ReportError m True \<in> set (feedback st')
                \<and> sublist X m \<and> sublist Y m \<and> sublist Z m
                \<and> (\<forall>(k, v)\<in>set info. sublist ([CHR 0x09] @ k @ '':'' @ [CHR 0x09] @ v) m)
                \<and> requests st' = requests st @ [base_request e self jd ps (settings st)]"
  proof (rule processAlgorithmMakeRequest_cases [OF c, of st self jd ps])
    fix st4
    assume st4: "requests st4 = requests st @ [base_request e self jd ps (settings st)]"
      and cases: "processAlgorithmMakeRequest e self jd ps st =
       (case send e (length (requests st)) (base_request e self jd ps (settings st)) of
          Raises x \<Rightarrow> (Inl (RequestException x), st4)
        | Responds r \<Rightarrow>
            (case json_loads e (response_text r) of
               None \<Rightarrow>
                 (Inl (QgsProcessingException ''Could not decode response''),
                  logMessage (Exception ValueError)
                    (reportError ''Could not decode response. See log for more details.'' True st4))
             | Some b \<Rightarrow>
                 if raises_for_status r then
                   (case api_error_message ''Received error from the API.'' b of
                      Inl k \<Rightarrow> (Inl k, st4)
                    | Inr m \<Rightarrow>
                        (Inl (QgsProcessingException
                                (''Got error '' @ string_of_nat (status_code r) @ '' from API'')),
                         logMessage (Exception (HTTPError (status_code r)))
                           (reportError ''See log for more details.'' True
                             (reportError m True st4))))
                 else
                   (Inr b,
                    if get_log_calls (settings st) then
                      log_response r
                        (if from_cache r then pushDebugInfo ''Got response from cache...'' st4
                         else increment_count
                                (pushDebugInfo ''Got response from API endpoint...'' st4))
                    else
                      (if from_cache r then pushDebugInfo ''Got response from cache...'' st4
                       else increment_count
                              (pushDebugInfo ''Got response from API endpoint...'' st4)))))"
    let ?st' = "logMessage (Exception (HTTPError (status_code r)))
               (reportError ''See log for more details.'' True (reportError m True st4))"
    have run: "processAlgorithmMakeRequest e self jd ps st
          = (Inl (QgsProcessingException
                    (''Got error '' @ string_of_nat (status_code r) @ '' from API'')), ?st')"
      unfolding cases by (simp add: s assms(1,2) m)
    have fb: "ReportError m True \<in> set (feedback ?st')"
      by (simp add: logMessage_def reportError_def)
    have rq: "requests ?st' = requests st @ [base_request e self jd ps (settings st)]"
      by (simp add: logMessage_def reportError_def st4)
    show ?thesis
      apply (rule exI [of _ m])
      apply (rule exI [of _ ?st'])
      apply (intro conjI run fb rq sub)
      done
  qed
next
  assume h: "send e (length (requests st)) rq = Responds r"
  from api_error_message_complete [OF assms(3-6), of "''Recieved error from the API.''"]
  obtain m where m: "api_error_message ''Recieved error from the API.'' b = Inr m"
    and sub: "sublist X m" "sublist Y m" "sublist Z m"
             "\<forall>(k, v)\<in>set info. sublist ([CHR 0x09] @ k @ '':'' @ [CHR 0x09] @ v) m"
    by blast
  from make_request_http_error [OF h assms(1,2) m, of p] sub
  show "\<exists>m st'. make_request e rq p st
                          = (Inl (QgsProcessingException
                                    (''Got error '' @ string_of_nat (status_code r) @ '' form API'')),
                             st')
                \<and> ReportError m True \<in> set (feedback st')
                \<and> sublist X m \<and> sublist Y m \<and> sublist Z m
                \<and> (\<forall>(k, v)\<in>set info. sublist ([CHR 0x09] @ k @ '':'' @ [CHR 0x09] @ v) m)
                \<and> requests st' = requests st @ [rq]"
    by blast
qed


theorem api_error_reported_witness:
  "(\<exists>m st'. processAlgorithmMakeRequest (sample_env (\<lambda>n rq. Responds error_response)) sample_base
                ''payload'' [] (sample_state (sample_settings 0 10 False))
              = (Inl (QgsProcessingException ''Got error 400 from API''), st')
        \<and> ReportError m True \<in> set (feedback st')
        \<and> sublist ''X'' m \<and> sublist ''Y'' m \<and> sublist ''Z'' m
        \<and> sublist ([CHR 0x09] @ ''k'' @ '':'' @ [CHR 0x09] @ ''v'') m)
   \<and> (\<exists>m st'. make_request (sample_env (\<lambda>n rq. Responds error_response))
                (post_request (TimeMapAlgorithm False False)
                   (request_headers (TimeMapAlgorithm False False) ''app'' ''secret'') ''payload'')
                False (sample_state (sample_settings 0 10 False))
              = (Inl (QgsProcessingException ''Got error 400 form API''), st')
        \<and> ReportError m True \<in> set (feedback st')
        \<and> sublist ''X'' m \<and> sublist ''Y'' m \<and> sublist ''Z'' m
        \<and> sublist ([CHR 0x09] @ ''k'' @ '':'' @ [CHR 0x09] @ ''v'') m)"
proof -
  let ?e = "sample_env (\<lambda>n rq. Responds error_response)"
  let ?st = "sample_state (sample_settings 0 10 False)"
  let ?rq = "post_request (TimeMapAlgorithm False False)
               (request_headers (TimeMapAlgorithm False False) ''app'' ''secret'') ''payload''"
  have h1: "raises_for_status error_response"
    by (simp add: raises_for_status_def error_response_def)
  have h2: "json_loads ?e (response_text error_response) = Some sample_error_body"
    by (simp add: sample_env_def error_response_def sample_loads_def)
  have k: "b_error_code sample_error_body = Some ''X''"
          "b_description sample_error_body = Some ''Y''"
          "b_documentation_link sample_error_body = Some ''Z''"
          "b_additional_info sample_error_body = Some [(''k'', ''v'')]"
    by (simp_all add: sample_error_body_def)
  have c: "truthy (fst (credentials ?e)) \<and> truthy (snd (credentials ?e))
          \<and> send ?e (length (requests ?st)) (base_request ?e sample_base ''payload'' [] (settings ?st))
              = Responds error_response"
    by (simp add: sample_env_def truthy_def)
  have s: "send ?e (length (requests ?st)) ?rq = Responds error_response"
    by (simp add: sample_env_def)
  have n: "string_of_nat (status_code error_response) = ''400''"
    by code_simp
  note T = api_error_reported [OF h1 h2 k, of ?st sample_base "''payload''" "[]" ?rq False]
  from mp [OF conjunct1 [OF T] c] obtain m1 st1 where
    1: "processAlgorithmMakeRequest ?e sample_base ''payload'' [] ?st
          = (Inl (QgsProcessingException
                    (''Got error '' @ string_of_nat (status_code error_response) @ '' from API'')), st1)"
       "ReportError m1 True \<in> set (feedback st1)"
       "sublist ''X'' m1" "sublist ''Y'' m1" "sublist ''Z'' m1"
       "\<forall>(k, v)\<in>set [(''k'', ''v'')]. sublist ([CHR 0x09] @ k @ '':'' @ [CHR 0x09] @ v) m1"
    by (elim exE conjE)
  from mp [OF conjunct2 [OF T] s] obtain m2 st2 where
    2: "make_request ?e ?rq False ?st
          = (Inl (QgsProcessingException
                    (''Got error '' @ string_of_nat (status_code error_response) @ '' form API'')), st2)"
       "ReportError m2 True \<in> set (feedback st2)"
       "sublist ''X'' m2" "sublist ''Y'' m2" "sublist ''Z'' m2"
       "\<forall>(k, v)\<in>set [(''k'', ''v'')]. sublist ([CHR 0x09] @ k @ '':'' @ [CHR 0x09] @ v) m2"
    by (elim exE conjE)
  from 1(6) have i1: "sublist ([CHR 0x09] @ ''k'' @ '':'' @ [CHR 0x09] @ ''v'') m1"
    by simp
  from 2(6) have i2: "sublist ([CHR 0x09] @ ''k'' @ '':'' @ [CHR 0x09] @ ''v'') m2"
    by simp
  have e1: "processAlgorithmMakeRequest ?e sample_base ''payload'' [] ?st
              = (Inl (QgsProcessingException ''Got error 400 from API''), st1)"
    using 1(1) unfolding n by simp
  have e2: "make_request ?e ?rq False ?st
              = (Inl (QgsProcessingException ''Got error 400 form API''), st2)"
    using 2(1) unfolding n by simp
  show ?thesis
    apply (rule conjI)
     apply (rule exI [of _ m1])
     apply (rule exI [of _ st1])
     apply (intro conjI e1 1(2-5) i1)
    apply (rule exI [of _ m2])
    apply (rule exI [of _ st2])
    apply (intro conjI e2 2(2-5) i2)
    done
qed


section \<open>The usage counter\<close>

lemma log_response_settings: "settings (log_response r st) = settings st"
  by (simp add: log_response_def logMessage_def)

text \<open>
  The older request loop writes the counter whenever a response that is not from the cache
  has arrived, whatever its status and whether or not its body decodes.
\<close>

lemma make_request_counter:
  "settings (snd (make_request e rq p st))
     = (case send e (length (requests st)) rq of
          Raises x \<Rightarrow> settings st
        | Responds r \<Rightarrow>
            if from_cache r then settings st
            else (settings st)\<lparr>current_count := Some (get_count (settings st) + 1)\<rparr>)"
  unfolding make_request_def
  by (simp add: Let_def log_response_settings logMessage_def reportError_def pushDebugInfo_def
        increment_count_def
      split: outcome.split option.split sum.split)

text \<open>
  Claim C2 fails on the older request loop. With the counter at 5, a response that is not
  from the cache and carries the status 400 makes the operation raise, and the counter is 6
  afterwards; the same happens for a fresh response whose body does not decode.
\<close>

theorem counter_written_on_failed_request:
  "fst (processAlgorithm (sample_env (\<lambda>n rq. Responds error_response)) (TimeMapAlgorithm False False)
          (Some [sample_feature ''a'']) None (sample_state (sample_settings 5 10 False)))
     = Inl (QgsProcessingException ''Got error 400 form API'')
   \<and> current_count (settings (snd (processAlgorithm (sample_env (\<lambda>n rq. Responds error_response))
          (TimeMapAlgorithm False False) (Some [sample_feature ''a'']) None
          (sample_state (sample_settings 5 10 False))))) = Some 6
   \<and> fst (processAlgorithm (sample_env (\<lambda>n rq. Responds garbage_response)) (TimeMapAlgorithm False False)
          (Some [sample_feature ''a'']) None (sample_state (sample_settings 5 10 False)))
     = Inl (QgsProcessingException ''Could not decode response'')
   \<and> current_count (settings (snd (processAlgorithm (sample_env (\<lambda>n rq. Responds garbage_response))
          (TimeMapAlgorithm False False) (Some [sample_feature ''a'']) None
          (sample_state (sample_settings 5 10 False))))) = Some 6"
  by code_simp

theorem counter_written_on_failed_request_witness:
  "current_count (settings (snd (processAlgorithm (sample_env (\<lambda>n rq. Responds error_response))
          (TimeMapAlgorithm False False) (Some [sample_feature ''a'']) None
          (sample_state (sample_settings 5 10 False)))))
     \<noteq> current_count (settings (sample_state (sample_settings 5 10 False)))"
proof -
  have "current_count (settings (sample_state (sample_settings 5 10 False))) = Some 5"
    by (simp add: sample_state_def sample_settings_def)
  moreover have "current_count (settings (snd (processAlgorithm
          (sample_env (\<lambda>n rq. Responds error_response))
          (TimeMapAlgorithm False False) (Some [sample_feature ''a'']) None
          (sample_state (sample_settings 5 10 False))))) = Some 6"
    using counter_written_on_failed_request by (rule conjunct1 [OF conjunct2])
  ultimately show ?thesis
    by simp
qed

text \<open>
  The request helper of the newer module does what the claim says: the settings are the
  same after the call unless a response that is not from the cache decoded and carried no
  error status, and then the counter is one higher.
\<close>

lemma base_counter_written_only_on_fresh_success:
  assumes "truthy (fst (credentials e))" "truthy (snd (credentials e))"
  shows "settings (snd (processAlgorithmMakeRequest e self jd ps st))
     = (case send e (length (requests st)) (base_request e self jd ps (settings st)) of
          Raises x \<Rightarrow> settings st
        | Responds r \<Rightarrow>
            (case json_loads e (response_text r) of
               None \<Rightarrow> settings st
             | Some b \<Rightarrow>
                 if raises_for_status r \<or> from_cache r then settings st
                 else (settings st)\<lparr>current_count := Some (get_count (settings st) + 1)\<rparr>))"
proof (rule processAlgorithmMakeRequest_cases [OF assms, of st self jd ps])
  fix st4
  assume a: "settings st4 = settings st"
    and cases: "processAlgorithmMakeRequest e self jd ps st =
       (case send e (length (requests st)) (base_request e self jd ps (settings st)) of
          Raises x \<Rightarrow> (Inl (RequestException x), st4)
        | Responds r \<Rightarrow>
            (case json_loads e (response_text r) of
               None \<Rightarrow>
                 (Inl (QgsProcessingException ''Could not decode response''),
                  logMessage (Exception ValueError)
                    (reportError ''Could not decode response. See log for more details.'' True st4))
             | Some b \<Rightarrow>
                 if raises_for_status r then
                   (case api_error_message ''Received error from the API.'' b of
                      Inl k \<Rightarrow> (Inl k, st4)
                    | Inr m \<Rightarrow>
                        (Inl (QgsProcessingException
                                (''Got error '' @ string_of_nat (status_code r) @ '' from API'')),
                         logMessage (Exception (HTTPError (status_code r)))
                           (reportError ''See log for more details.'' True
                             (reportError m True st4))))
                 else
                   (Inr b,
                    if get_log_calls (settings st) then
                      log_response r
                        (if from_cache r then pushDebugInfo ''Got response from cache...'' st4
                         else increment_count
                                (pushDebugInfo ''Got response from API endpoint...'' st4))
                    else
                      (if from_cache r then pushDebugInfo ''Got response from cache...'' st4
                       else increment_count
                              (pushDebugInfo ''Got response from API endpoint...'' st4)))))"
  show ?thesis
    unfolding cases
    by (simp add: a log_response_settings logMessage_def reportError_def pushDebugInfo_def
          increment_count_def
        split: outcome.split option.split sum.split)
qed

lemma base_counter_unchanged_without_credentials:
  assumes "\<not> truthy (fst (credentials e)) \<or> \<not> truthy (snd (credentials e))"
  shows "settings (snd (processAlgorithmMakeRequest e self jd ps st)) = settings st"
  using assms unfolding processAlgorithmMakeRequest_def
  by (auto simp: Let_def reportError_def)


section \<open>Credentials and the message log\<close>

text \<open>
  The request helper of the newer module logs a copy of the headers in which both
  credential headers read \<open>*hidden*\<close>; the request itself carries the credentials. What
  it logs before the request is therefore the same for any two pairs of credentials.
\<close>

lemma base_logged_headers:
  assumes "truthy (fst (credentials e))" "truthy (snd (credentials e))"
  shows "hide_header ''X-Api-Key'' (hide_header ''X-Application-Id'' (base_headers e self))
     = [(''Content-type'', ''application/json''),
        (''Accept'', ab_accept_header self),
        (''User-Agent'', user_agent e),
        (''X-Application-Id'', ''*hidden*''),
        (''X-Api-Key'', ''*hidden*'')]"
proof -
  from assms have "string_of_credential (fst (credentials e)) \<noteq> []"
    "string_of_credential (snd (credentials e)) \<noteq> []"
    by (auto simp: truthy_def string_of_credential_def split: option.splits)
  then show ?thesis
    by (simp add: hide_header_def base_headers_def)
qed

lemma base_request_carries_credentials:
  "map_of (rq_headers (base_request e self jd ps s)) ''X-Application-Id''
     = Some (string_of_credential (fst (credentials e)))"
  "map_of (rq_headers (base_request e self jd ps s)) ''X-Api-Key''
     = Some (string_of_credential (snd (credentials e)))"
  by (simp_all add: base_request_def base_headers_def)

lemma base_log_request_independent_of_credentials:
  assumes "truthy (fst (credentials e))" "truthy (snd (credentials e))"
      and "truthy (fst c)" "truthy (snd c)"
  shows "base_log_request (e\<lparr>credentials := c\<rparr>) self jd ps st = base_log_request e self jd ps st"
proof -
  have "truthy (fst (credentials (e\<lparr>credentials := c\<rparr>)))"
       "truthy (snd (credentials (e\<lparr>credentials := c\<rparr>)))"
    using assms(3,4) by simp_all
  from base_logged_headers [OF this, of self] base_logged_headers [OF assms(1,2), of self]
  show ?thesis
    unfolding base_log_request_def Let_def
    by (simp add: full_url_def split: option.split)
qed

text \<open>
  Claim C10 fails on the older request loop, which logs the header dictionary it sends.
  With call logging on and the credentials \<open>app\<close> and \<open>secret\<close>, the message log of one
  request holds the two credential headers with their values.
\<close>

theorem credentials_logged_by_older_loop:
  "message_log (snd (processAlgorithm (sample_env (\<lambda>n rq. Responds ok_response))
      (TimeMapAlgorithm False False) (Some [sample_feature ''a'']) None
      (sample_state (sample_settings 0 10 True))))
     = [Line ''Making request'',
        Line ''url: https://api.traveltimeapp.com/v4/time-map'',
        Headers [(''Content-type'', ''application/json''),
                 (''Accept'', ''application/vnd.wkt+json''),
                 (''X-Application-Id'', ''app''),
                 (''X-Api-Key'', ''secret'')],
        Line ''data: payload'',
        Line ''Got response'',
        Line ''status: 200'',
        Line ''reason: OK'',
        Line ''text: results'']"
  by code_simp

theorem credentials_logged_by_older_loop_witness:
  "Headers [(''Content-type'', ''application/json''),
            (''Accept'', ''application/vnd.wkt+json''),
            (''X-Application-Id'', ''app''),
            (''X-Api-Key'', ''secret'')]
     \<in> set (message_log (snd (processAlgorithm (sample_env (\<lambda>n rq. Responds ok_response))
              (TimeMapAlgorithm False False) (Some [sample_feature ''a'']) None
              (sample_state (sample_settings 0 10 True)))))"
  unfolding credentials_logged_by_older_loop by simp

end
